theory Spec2Isabelle
  imports Complex_Main "HOL-Library.Word" "HOL-Library.Sublist"
begin

section \<open>Values, errors and array primitives\<close>

text \<open>
  Exceptions are values: a function that can raise returns \<open>error + 'a\<close>, with the
  exception (class and message) on the left.
\<close>

datatype error =
    ValueError string
  | IndexError string
  | KeyError string
  | ZeroDivisionError string

text \<open>
  A sample of a signal is a floating-point number. Where a function depends only on the
  order of the samples, on their number and on not-a-number values, a sample is \<open>NaN\<close>
  or a real number, and arithmetic on real numbers is exact. Comparisons with \<open>NaN\<close> are
  false and arithmetic with \<open>NaN\<close> gives \<open>NaN\<close>.
\<close>

datatype float64 = NaN | Fin real

fun f_add :: "float64 \<Rightarrow> float64 \<Rightarrow> float64" where
  "f_add (Fin a) (Fin b) = Fin (a + b)"
| "f_add _ _ = NaN"

fun f_sub :: "float64 \<Rightarrow> float64 \<Rightarrow> float64" where
  "f_sub (Fin a) (Fin b) = Fin (a - b)"
| "f_sub _ _ = NaN"

fun f_abs :: "float64 \<Rightarrow> float64" where
  "f_abs (Fin a) = Fin \<bar>a\<bar>"
| "f_abs NaN = NaN"

text \<open>
  Division: \<open>0 / 0\<close> is \<open>NaN\<close>. A non-zero value divided by zero would be an infinity;
  no function below divides a non-zero value by zero.
\<close>

fun f_div :: "float64 \<Rightarrow> float64 \<Rightarrow> float64" where
  "f_div (Fin a) (Fin b) = (if b = 0 then NaN else Fin (a / b))"
| "f_div _ _ = NaN"

fun f_lt :: "float64 \<Rightarrow> float64 \<Rightarrow> bool" where
  "f_lt (Fin a) (Fin b) = (a < b)"
| "f_lt _ _ = False"

fun f_ge :: "float64 \<Rightarrow> float64 \<Rightarrow> bool" where
  "f_ge (Fin a) (Fin b) = (a \<ge> b)"
| "f_ge _ _ = False"

definition isnan :: "float64 \<Rightarrow> bool" where
  "isnan x = (x = NaN)"

subsection \<open>Double precision\<close>

text \<open>
  Where a result depends on rounding, on overflow or on the infinities, the functions
  below work on IEEE 754 binary64 values: a not-a-number value, the two infinities, or
  a real number, which is a double when \<open>rnd\<close> leaves it unchanged. Zero has no sign
  in the model.
\<close>

datatype double = DNaN | PInf | NInf | Dbl real

text \<open>\<open>np.round\<close>: to the nearest integer, a tie going to the even neighbour.\<close>

definition np_round :: "real \<Rightarrow> int" where
  "np_round x =
     (let f = \<lfloor>x\<rfloor>; d = x - of_int f
      in if d < 1 / 2 then f
         else if 1 / 2 < d then f + 1
         else if even f then f else f + 1)"

text \<open>
  Rounding to the nearest double, a tie going to the even mantissa. \<open>binade x\<close> is the
  exponent of \<open>x\<close>: the largest \<open>k\<close> from -1022 to 1023 with \<open>2^k \<le> |x|\<close>, and -1022
  for the subnormal numbers. The doubles of that binade are the multiples of
  \<open>2^(k - 52)\<close>; a result of magnitude \<open>2^1024\<close> overflows to an infinity.
\<close>

definition binade :: "real \<Rightarrow> int" where
  "binade x = Max (insert (- 1022) {k \<in> {- 1022..1023}. 2 powi k \<le> \<bar>x\<bar>})"

definition rnd :: "real \<Rightarrow> double" where
  "rnd x =
     (let u = 2 powi (binade x - 52);
          y = real_of_int (np_round (x / u)) * u
      in if 2 powi 1024 \<le> \<bar>y\<bar> then (if 0 < y then PInf else NInf) else Dbl y)"

fun d_add :: "double \<Rightarrow> double \<Rightarrow> double" where
  "d_add (Dbl a) (Dbl b) = rnd (a + b)"
| "d_add DNaN _ = DNaN"
| "d_add _ DNaN = DNaN"
| "d_add PInf NInf = DNaN"
| "d_add NInf PInf = DNaN"
| "d_add PInf _ = PInf"
| "d_add _ PInf = PInf"
| "d_add NInf _ = NInf"
| "d_add _ NInf = NInf"

fun d_sub :: "double \<Rightarrow> double \<Rightarrow> double" where
  "d_sub (Dbl a) (Dbl b) = rnd (a - b)"
| "d_sub DNaN _ = DNaN"
| "d_sub _ DNaN = DNaN"
| "d_sub PInf PInf = DNaN"
| "d_sub NInf NInf = DNaN"
| "d_sub PInf _ = PInf"
| "d_sub _ PInf = NInf"
| "d_sub NInf _ = NInf"
| "d_sub _ NInf = PInf"


text \<open>Division; a non-zero number divided by zero is the infinity of the dividend's sign.\<close>

fun d_div :: "double \<Rightarrow> double \<Rightarrow> double" where
  "d_div (Dbl a) (Dbl b) =
     (if b = 0 then (if a = 0 then DNaN else if 0 < a then PInf else NInf) else rnd (a / b))"
| "d_div DNaN _ = DNaN"
| "d_div _ DNaN = DNaN"
| "d_div (Dbl a) _ = Dbl 0"
| "d_div PInf (Dbl b) = (if 0 \<le> b then PInf else NInf)"
| "d_div NInf (Dbl b) = (if 0 \<le> b then NInf else PInf)"
| "d_div _ _ = DNaN"

fun d_abs :: "double \<Rightarrow> double" where
  "d_abs (Dbl a) = Dbl \<bar>a\<bar>"
| "d_abs NInf = PInf"
| "d_abs x = x"

fun d_lt :: "double \<Rightarrow> double \<Rightarrow> bool" where
  "d_lt (Dbl a) (Dbl b) = (a < b)"
| "d_lt NInf (Dbl b) = True"
| "d_lt NInf PInf = True"
| "d_lt (Dbl a) PInf = True"
| "d_lt _ _ = False"

fun d_le :: "double \<Rightarrow> double \<Rightarrow> bool" where
  "d_le DNaN _ = False"
| "d_le _ DNaN = False"
| "d_le x y = (\<not> d_lt y x)"





subsection \<open>Python slices\<close>

text \<open>
  \<open>xs[start:stop]\<close>: a negative bound counts from the end, and every bound is clamped
  to the sequence; an omitted bound is \<open>None\<close>.
\<close>

definition norm_index :: "nat \<Rightarrow> int \<Rightarrow> nat" where
  "norm_index n i = (if i < 0 then nat (max 0 (int n + i)) else min n (nat i))"

definition py_slice :: "'a list \<Rightarrow> int option \<Rightarrow> int option \<Rightarrow> 'a list" where
  "py_slice xs start stop =
     (let n = length xs;
          a = (case start of None \<Rightarrow> 0 | Some i \<Rightarrow> norm_index n i);
          b = (case stop of None \<Rightarrow> n | Some j \<Rightarrow> norm_index n j)
      in take (b - a) (drop a xs))"

text \<open>\<open>xs[::k]\<close> for a positive step \<open>k\<close>: the elements at positions 0, k, 2k, ...\<close>

fun every_nth :: "nat \<Rightarrow> 'a list \<Rightarrow> 'a list" where
  "every_nth k [] = []"
| "every_nth k (x # xs) = x # every_nth k (drop (k - 1) xs)"


subsection \<open>numpy primitives\<close>

text \<open>
  \<open>np.split(ary, indices)\<close> on a one-dimensional array cuts at the division points
  \<open>[0] + indices + [len(ary)]\<close>; every piece is the slice between two neighbouring
  division points.
\<close>

fun chunks_between :: "'a list \<Rightarrow> int list \<Rightarrow> 'a list list" where
  "chunks_between xs (a # b # ds) = py_slice xs (Some a) (Some b) # chunks_between xs (b # ds)"
| "chunks_between xs ds = []"

definition np_split :: "'a list \<Rightarrow> int list \<Rightarrow> 'a list list" where
  "np_split xs idxs = chunks_between xs (0 # idxs @ [int (length xs)])"

text \<open>
  \<open>np.vstack\<close> of one-dimensional arrays: the arrays become the rows of a matrix. It
  raises on an empty list and on rows of different lengths.
\<close>

definition np_vstack :: "'a list list \<Rightarrow> error + 'a list list" where
  "np_vstack rs =
     (case rs of
        [] \<Rightarrow> Inl (ValueError ''need at least one array to concatenate'')
      | r # rs' \<Rightarrow>
          if \<forall>q \<in> set rs'. length q = length r then Inr rs
          else Inl (ValueError ''all the input array dimensions except for the concatenation axis must match exactly''))"

section \<open>Segmentation of a raw signal at the stimulation onsets\<close>

text \<open>\<open>trim_equal_len\<close>: every array is cut to the length of the shortest one.\<close>

definition trim_equal_len :: "'a list list \<Rightarrow> 'a list list" where
  "trim_equal_len raw =
     (let lens = map length raw
      in map (\<lambda>r. py_slice r None (Some (int (Min (set lens))))) raw)"

text \<open>
  \<open>parse_raw\<close>. The onsets are shifted back by \<open>samples_before_stim\<close>; reading the
  first onset of an empty onset array raises \<open>IndexError\<close>; a negative first onset
  becomes 0.
\<close>

definition parse_raw ::
  "'a list \<Rightarrow> int list \<Rightarrow> int \<Rightarrow> bool \<Rightarrow> int \<Rightarrow> error + 'a list list" where
  "parse_raw raw stimulation_idxs samples_before_stim skip_one min_len_chunk =
     (let shifted = map (\<lambda>i. i - samples_before_stim) stimulation_idxs
      in case shifted of
           [] \<Rightarrow> Inl (IndexError ''index 0 is out of bounds for axis 0 with size 0'')
         | s0 # rest \<Rightarrow>
             let clamped = (if s0 < 0 then 0 # rest else shifted);
                 idxs = (if skip_one then every_nth 2 clamped else clamped);
                 split_raw = tl (np_split raw idxs);
                 split_raw = filter (\<lambda>chunk. int (length chunk) \<ge> min_len_chunk) split_raw;
                 leveled_list = trim_equal_len split_raw
             in np_vstack leveled_list)"


section \<open>Reductions and elementwise arithmetic\<close>

definition f_gt :: "float64 \<Rightarrow> float64 \<Rightarrow> bool" where
  "f_gt x y = f_lt y x"

definition np_sum :: "float64 list \<Rightarrow> float64" where
  "np_sum xs = foldl f_add (Fin 0) xs"

text \<open>\<open>np.mean\<close> of a one-dimensional array; the mean of an empty array is \<open>NaN\<close>.\<close>

definition np_mean :: "float64 list \<Rightarrow> float64" where
  "np_mean xs = f_div (np_sum xs) (Fin (real (length xs)))"

text \<open>
  The sum of a contiguous array of doubles as \<open>np.add.reduce\<close> computes it: fewer than
  8 elements are added from left to right; up to 128 elements are added into 8 running
  sums, block by block, which are then added in pairs, and the remaining elements are
  added one by one; a longer array is cut in two (the first part a multiple of 8) and
  the two sums are added. The result is added to the initial value 0.
\<close>

fun accumulate8 :: "double list \<Rightarrow> double list \<Rightarrow> double list" where
  "accumulate8 r rest =
     (if length rest < 8 then r
      else accumulate8 (map2 d_add r (take 8 rest)) (drop 8 rest))"

definition sum8 :: "double list \<Rightarrow> double" where
  "sum8 r =
     d_add (d_add (d_add (r ! 0) (r ! 1)) (d_add (r ! 2) (r ! 3)))
           (d_add (d_add (r ! 4) (r ! 5)) (d_add (r ! 6) (r ! 7)))"

function pairwise_sum :: "double list \<Rightarrow> double" where
  "pairwise_sum a =
     (if length a < 8 then foldl d_add (Dbl 0) a
      else if length a \<le> 128
      then foldl d_add
             (sum8 (accumulate8 (take 8 a) (drop 8 (take (length a - length a mod 8) a))))
             (drop (length a - length a mod 8) a)
      else d_add (pairwise_sum (take (length a div 2 - length a div 2 mod 8) a))
                 (pairwise_sum (drop (length a div 2 - length a div 2 mod 8) a)))"
  by pat_completeness auto
termination
  by (relation "measure length") auto

declare pairwise_sum.simps [simp del]

text \<open>\<open>np.mean\<close> of an array of doubles: the sum divided by the number of elements.\<close>

definition np_mean64 :: "double list \<Rightarrow> double" where
  "np_mean64 a = d_div (d_add (Dbl 0) (pairwise_sum a)) (rnd (real (length a)))"




text \<open>
  \<open>argmin\<close> of a one-dimensional array, as numpy scans it: the first element is the
  running minimum; a later element replaces it when it is not greater than or equal to
  it (so when it is smaller, or not a number); the scan stops at the first \<open>NaN\<close>.
  An empty array raises.
\<close>

fun argmin_scan :: "float64 \<Rightarrow> nat \<Rightarrow> nat \<Rightarrow> float64 list \<Rightarrow> nat" where
  "argmin_scan mp min_ind i [] = min_ind"
| "argmin_scan mp min_ind i (x # xs) =
     (if \<not> f_ge x mp
      then (if isnan x then i else argmin_scan x i (Suc i) xs)
      else argmin_scan mp min_ind (Suc i) xs)"

definition np_argmin :: "float64 list \<Rightarrow> error + nat" where
  "np_argmin xs =
     (case xs of
        [] \<Rightarrow> Inl (ValueError ''attempt to get argmin of an empty sequence'')
      | x # xs' \<Rightarrow> Inr (if isnan x then 0 else argmin_scan x 0 1 xs'))"

section \<open>Event detection on one-dimensional signals\<close>

definition simply_mean_data_binarize :: "double list \<Rightarrow> int list" where
  "simply_mean_data_binarize sync_ch =
     (let mean = np_mean64 sync_ch
      in map (\<lambda>i. if d_lt i mean then 0 else 1) sync_ch)"

text \<open>
  \<open>np.diff(mask, prepend=False)\<close> on a boolean array: each entry says whether the mask
  differs from the entry before it, the entry before the first one being \<open>False\<close>.
\<close>

fun diff_prepend :: "bool \<Rightarrow> bool list \<Rightarrow> bool list" where
  "diff_prepend p [] = []"
| "diff_prepend p (b # bs) = (b \<noteq> p) # diff_prepend b bs"

definition np_where :: "bool list \<Rightarrow> int list" where
  "np_where bs = map int (filter (\<lambda>i. bs ! i) [0..<length bs])"

text \<open>
  \<open>get_stim_timestamps\<close>. The test \<open>if expected_pulses\<close> is false for \<open>None\<close> and for 0.
\<close>

definition get_stim_timestamps :: "float64 list \<Rightarrow> int option \<Rightarrow> int list" where
  "get_stim_timestamps sync_ch expected_pulses =
     (let threshold_crossing = diff_prepend False (map (\<lambda>x. f_gt x (Fin 0)) sync_ch);
          idxs_edges = np_where threshold_crossing;
          stim_starts = every_nth 2 idxs_edges
      in case expected_pulses of
           None \<Rightarrow> stim_starts
         | Some n \<Rightarrow> if n \<noteq> 0 then py_slice stim_starts None (Some n) else stim_starts)"


definition find_closest_index :: "float64 list \<Rightarrow> float64 \<Rightarrow> error + nat" where
  "find_closest_index data datapoint =
     (if list_ex isnan data
      then Inl (ValueError ''The input array contains nan which will always return as the nearest to datapoint'')
      else np_argmin (map (\<lambda>x. f_abs (f_sub x datapoint)) data))"

text \<open>
  \<open>find_closest_smaller_index\<close>, in double precision: the difference is rounded and may
  overflow, and \<open>min_difference\<close> starts at \<open>np.inf\<close>.
\<close>

fun closest_smaller_loop ::
  "double \<Rightarrow> double list \<Rightarrow> nat \<Rightarrow> double \<Rightarrow> nat \<Rightarrow> nat" where
  "closest_smaller_loop datapoint [] i min_difference idx = idx"
| "closest_smaller_loop datapoint (x # xs) i min_difference idx =
     (if d_lt (d_abs (d_sub x datapoint)) min_difference \<and> d_lt x datapoint
      then closest_smaller_loop datapoint xs (Suc i) (d_abs (d_sub x datapoint)) i
      else closest_smaller_loop datapoint xs (Suc i) min_difference idx)"

definition find_closest_smaller_index :: "double list \<Rightarrow> double \<Rightarrow> nat" where
  "find_closest_smaller_index data datapoint = closest_smaller_loop datapoint data 0 PInf 0"

section \<open>Averaging the chunks of each stimulation amplitude\<close>

text \<open>
  A two-dimensional array is its rows together with the number of columns, which the
  array keeps even when it has no rows. In a well-formed array every row has that length.
\<close>

record ndarray2 =
  ncols :: nat
  rows :: "float64 list list"

definition wf_ndarray2 :: "ndarray2 \<Rightarrow> bool" where
  "wf_ndarray2 a = list_all (\<lambda>r. length r = ncols a) (rows a)"

text \<open>\<open>np.mean(block, axis=0)\<close>: the mean of every column.\<close>

definition mean_axis0 :: "nat \<Rightarrow> float64 list list \<Rightarrow> float64 list" where
  "mean_axis0 m rs = map (\<lambda>j. np_mean (map (\<lambda>r. r ! j) rs)) [0..<m]"

definition average_block :: "ndarray2 \<Rightarrow> int \<Rightarrow> int \<Rightarrow> float64 list" where
  "average_block array start stop =
     (let parsed = py_slice (rows array) (Some start) (Some stop)
      in mean_axis0 (ncols array) parsed)"

fun amplitudes_loop ::
  "ndarray2 \<Rightarrow> int \<Rightarrow> nat list \<Rightarrow> float64 list list \<Rightarrow> float64 list list" where
  "amplitudes_loop parsed_raw pulses_number [] averaged_amplitudes = averaged_amplitudes"
| "amplitudes_loop parsed_raw pulses_number (i # is) averaged_amplitudes =
     (let start = int i * pulses_number;
          stop = (int i + 1) * pulses_number;
          averaged_amp = average_block parsed_raw start stop
      in amplitudes_loop parsed_raw pulses_number is (averaged_amplitudes @ [averaged_amp]))"

text \<open>
  \<open>get_average_amplitudes\<close>. \<open>if not pulses_number\<close> holds for \<open>None\<close> and for 0; the
  inferred number is \<open>int(len(parsed_raw) / len(tested_amplitudes))\<close>, which raises
  when no amplitude was tested.
\<close>

definition get_average_amplitudes ::
  "ndarray2 \<Rightarrow> 'b list \<Rightarrow> int option \<Rightarrow> error + float64 list list" where
  "get_average_amplitudes parsed_raw tested_amplitudes pulses_number =
     (let number_tested_amplitudes = length tested_amplitudes
      in if number_tested_amplitudes = 1
         then Inr [average_block parsed_raw 0 (int (length (rows parsed_raw)))]
         else
           (case (case pulses_number of
                    None \<Rightarrow> None
                  | Some p \<Rightarrow> if p = 0 then None else Some p) of
              Some p \<Rightarrow> Inr (amplitudes_loop parsed_raw p [0..<number_tested_amplitudes] [])
            | None \<Rightarrow>
                if number_tested_amplitudes = 0
                then Inl (ZeroDivisionError ''division by zero'')
                else Inr (amplitudes_loop parsed_raw
                       (int (length (rows parsed_raw)) div int number_tested_amplitudes)
                       [0..<number_tested_amplitudes] [])))"

section \<open>Sample indices of timestamps and stimulation blocks\<close>







section \<open>Gait cycle bounds of a kinematic run\<close>

text \<open>\<open>sep.join(names)\<close>\<close>

fun join :: "string \<Rightarrow> string list \<Rightarrow> string" where
  "join sep [] = []"
| "join sep [x] = x"
| "join sep (x # y # ys) = x @ sep @ join sep (y # ys)"

text \<open>\<open>Index.unique()\<close>: the distinct values, in the order of their first occurrence.\<close>

definition unique :: "'a list \<Rightarrow> 'a list" where
  "unique xs = rev (remdups (rev xs))"

text \<open>
  The marker table has one column per (scorer, bodypart, coordinate). The run keeps the
  table, the scorer, the sampling rate and the detected events of both sides.
\<close>

type_synonym events = "int list \<times> int list \<times> int list"

record KinematicDataRun =
  markers_df :: "((string \<times> string \<times> string) \<times> float64 list) list"
  scorer :: string
  run_fs :: real
  left_mtp :: "events option"
  right_mtp :: "events option"

definition bodyparts_level :: "KinematicDataRun \<Rightarrow> string list" where
  "bodyparts_level self = map (\<lambda>(key, col). fst (snd key)) (markers_df self)"

text \<open>\<open>markers_df[scorer][marker][axis]\<close>: each level raises \<open>KeyError\<close> on a missing key.\<close>

definition select_trajectory ::
  "KinematicDataRun \<Rightarrow> string \<Rightarrow> string \<Rightarrow> error + float64 list" where
  "select_trajectory self marker axis =
     (let by_scorer = filter (\<lambda>(key, col). fst key = scorer self) (markers_df self)
      in if by_scorer = [] then Inl (KeyError (scorer self))
         else
           let by_marker = filter (\<lambda>(key, col). fst (snd key) = marker) by_scorer
           in if by_marker = [] then Inl (KeyError marker)
              else (case filter (\<lambda>(key, col). snd (snd key) = axis) by_marker of
                      [] \<Rightarrow> Inl (KeyError axis)
                    | (key, col) # _ \<Rightarrow> Inr col))"

definition marker_error :: "string \<Rightarrow> string \<Rightarrow> string list \<Rightarrow> error" where
  "marker_error side marker names =
     ValueError (''The '' @ side @ '' reference marker '' @ marker @ '' is not among the markers.''
       @ [CHR 0x0A] @ '' Please select one among the following: '' @ [CHR 0x0A]
       @ join '', '' names)"

text \<open>
  \<open>compute_gait_cycles_bounds\<close>. The event detection \<open>get_toe_lift_landing\<close> is the
  parameter \<open>detect\<close>: it maps a trajectory and a sampling rate to the lift, land and
  maximum indices, or raises.
\<close>

definition compute_gait_cycles_bounds ::
  "(float64 list \<Rightarrow> real \<Rightarrow> error + events) \<Rightarrow> KinematicDataRun \<Rightarrow> string \<Rightarrow> string \<Rightarrow> string
     \<Rightarrow> error + KinematicDataRun" where
  "compute_gait_cycles_bounds detect self left_marker right_marker axis =
     (let names = unique (bodyparts_level self)
      in if left_marker \<notin> set names then Inl (marker_error ''left'' left_marker names)
         else if right_marker \<notin> set names then Inl (marker_error ''right'' right_marker names)
         else
           (case select_trajectory self left_marker axis of
              Inl e \<Rightarrow> Inl e
            | Inr left_traj \<Rightarrow>
                (case detect left_traj (run_fs self) of
                   Inl e \<Rightarrow> Inl e
                 | Inr left_events \<Rightarrow>
                     (case select_trajectory self right_marker axis of
                        Inl e \<Rightarrow> Inl e
                      | Inr right_traj \<Rightarrow>
                          (case detect right_traj (run_fs self) of
                             Inl e \<Rightarrow> Inl e
                           | Inr right_events \<Rightarrow>
                               Inr (self\<lparr>left_mtp := Some left_events,
                                         right_mtp := Some right_events\<rparr>))))))"

text \<open>
  The older run class keeps a flat table, one column per name, and takes the sampling
  rate as an argument.
\<close>

record FlatKinematicDataRun =
  flat_markers_df :: "(string \<times> float64 list) list"
  flat_left_mtp :: "events option"
  flat_right_mtp :: "events option"

definition flat_select :: "FlatKinematicDataRun \<Rightarrow> string \<Rightarrow> error + float64 list" where
  "flat_select self marker =
     (case map_of (flat_markers_df self) marker of
        None \<Rightarrow> Inl (KeyError marker)
      | Some col \<Rightarrow> Inr col)"

definition flat_compute_gait_cycles_bounds ::
  "(float64 list \<Rightarrow> real \<Rightarrow> error + events) \<Rightarrow> FlatKinematicDataRun \<Rightarrow> string \<Rightarrow> string \<Rightarrow> real
     \<Rightarrow> error + FlatKinematicDataRun" where
  "flat_compute_gait_cycles_bounds detect self left_marker right_marker recording_fs =
     (let names = map fst (flat_markers_df self)
      in if left_marker \<notin> set names then Inl (marker_error ''left'' left_marker names)
         else if right_marker \<notin> set names then Inl (marker_error ''right'' right_marker names)
         else
           (case flat_select self left_marker of
              Inl e \<Rightarrow> Inl e
            | Inr left_traj \<Rightarrow>
                (case detect left_traj recording_fs of
                   Inl e \<Rightarrow> Inl e
                 | Inr left_events \<Rightarrow>
                     (case flat_select self right_marker of
                        Inl e \<Rightarrow> Inl e
                      | Inr right_traj \<Rightarrow>
                          (case detect right_traj recording_fs of
                             Inl e \<Rightarrow> Inl e
                           | Inr right_events \<Rightarrow>
                               Inr (self\<lparr>flat_left_mtp := Some left_events,
                                         flat_right_mtp := Some right_events\<rparr>))))))"


section \<open>Properties of the segmentation\<close>

lemma length_chunks_between: "length (chunks_between xs ds) = length ds - 1"
  by (induction xs ds rule: chunks_between.induct) auto

lemma length_py_slice_in_range:
  "0 \<le> a \<Longrightarrow> a \<le> b \<Longrightarrow> b \<le> int (length xs) \<Longrightarrow>
   length (py_slice xs (Some a) (Some b)) = nat (b - a)"
  by (auto simp: py_slice_def norm_index_def Let_def)

lemma chunks_between_nonempty:
  "sorted_wrt (<) ds \<Longrightarrow> \<forall>d \<in> set ds. 0 \<le> d \<and> d \<le> int (length xs) \<Longrightarrow>
   \<forall>c \<in> set (chunks_between xs ds). 1 \<le> length c"
proof (induction xs ds rule: chunks_between.induct)
  case (1 xs a b ds)
  have "length (py_slice xs (Some a) (Some b)) = nat (b - a)"
    using "1.prems" by (intro length_py_slice_in_range) auto
  moreover have "a < b" using "1.prems" by simp
  ultimately have "1 \<le> length (py_slice xs (Some a) (Some b))" by simp
  moreover have "\<forall>c \<in> set (chunks_between xs (b # ds)). 1 \<le> length c"
    using "1.IH" "1.prems" by simp
  ultimately show ?case by simp
qed simp_all

lemma length_trim_equal_len: "length (trim_equal_len rs) = length rs"
  by (simp add: trim_equal_len_def)

lemma trim_equal_len_rows:
  "q \<in> set (trim_equal_len rs) \<Longrightarrow> length q = Min (set (map length rs))"
proof -
  assume "q \<in> set (trim_equal_len rs)"
  then obtain r where r: "r \<in> set rs" and q: "q = py_slice r None (Some (int (Min (set (map length rs)))))"
    by (auto simp: trim_equal_len_def Let_def)
  have "Min (set (map length rs)) \<le> length r"
    using r by (intro Min_le) auto
  then show ?thesis
    by (simp add: q py_slice_def norm_index_def)
qed

lemma np_vstack_equal:
  "rs \<noteq> [] \<Longrightarrow> \<forall>q \<in> set rs. length q = m \<Longrightarrow> np_vstack rs = Inr rs"
  by (cases rs) (auto simp: np_vstack_def)

text \<open>
  C1. Claimed: with \<open>samples_before_stim = 0\<close>, \<open>skip_one = False\<close> and
  \<open>min_len_chunk = 1\<close>, strictly increasing onsets below the signal length give
  \<open>len(onsets) - 1\<close> rows. The code cuts the signal into \<open>len(onsets) + 1\<close> pieces and
  drops only the piece before the first onset: a signal of three samples with onsets 1
  and 2 gives two rows, not one.
\<close>

theorem parse_raw_row_count_counterexample:
  "parse_raw [10, 20, 30 :: int] [1, 2] 0 False 1 = Inr [[20], [30]]
   \<and> length [[20 :: int], [30]] \<noteq> length [1 :: int, 2] - 1"
  by (simp add: parse_raw_def np_split_def py_slice_def norm_index_def trim_equal_len_def
      np_vstack_def)

text \<open>
  C1, as the code has it: for a non-empty, strictly increasing sequence of onsets, each
  at least 0 and below the signal length, \<open>parse_raw\<close> with \<open>samples_before_stim = 0\<close>,
  \<open>skip_one = False\<close> and \<open>min_len_chunk = 1\<close> returns a matrix with exactly
  \<open>len(onsets)\<close> rows (the piece before the first onset is dropped, the piece after the
  last onset is kept), all rows of one non-zero length.
\<close>

theorem parse_raw_row_count:
  assumes "onsets \<noteq> []"
    and "sorted_wrt (<) onsets"
    and "\<forall>k \<in> set onsets. 0 \<le> k \<and> k < int (length raw)"
  shows "\<exists>m. parse_raw raw onsets 0 False 1 = Inr m \<and> length m = length onsets
           \<and> (\<forall>r \<in> set m. 1 \<le> length r \<and> length r = length (hd m))"
proof -
  obtain s0 rest where onsets: "onsets = s0 # rest"
    using assms(1) by (cases onsets) auto
  let ?chunks = "tl (np_split raw onsets)"
  have len: "length ?chunks = length onsets"
    by (simp add: np_split_def length_chunks_between)
  have sorted: "sorted_wrt (<) (onsets @ [int (length raw)])"
    using assms(2,3) by (auto simp: sorted_wrt_append)
  have "\<forall>c \<in> set (chunks_between raw (onsets @ [int (length raw)])). 1 \<le> length c"
    using assms(3) by (intro chunks_between_nonempty [OF sorted]) auto
  moreover have "?chunks = chunks_between raw (onsets @ [int (length raw)])"
    by (simp add: np_split_def onsets)
  ultimately have nonempty: "\<forall>c \<in> set ?chunks. 1 \<le> length c"
    by simp
  then have keep: "filter (\<lambda>chunk. int (length chunk) \<ge> 1) ?chunks = ?chunks"
    by (auto simp: filter_id_conv)
  let ?m = "trim_equal_len ?chunks"
  have ne: "?chunks \<noteq> []"
  proof
    assume "?chunks = []"
    then have "length ?chunks = 0" by simp
    then show False using len assms(1) by simp
  qed
  have rows: "\<forall>q \<in> set ?m. length q = Min (set (map length ?chunks))"
    using trim_equal_len_rows by blast
  have "Min (set (map length ?chunks)) \<in> set (map length ?chunks)"
    using ne by (intro Min_in) auto
  then have min1: "1 \<le> Min (set (map length ?chunks))"
    using nonempty by auto
  have m_ne: "?m \<noteq> []"
    using ne by (simp add: trim_equal_len_def)
  have "s0 \<ge> 0" using assms(3) onsets by simp
  then have "parse_raw raw onsets 0 False 1 = np_vstack ?m"
    using keep by (simp add: parse_raw_def onsets Let_def)
  also have "\<dots> = Inr ?m"
    using m_ne rows by (rule np_vstack_equal)
  finally have res: "parse_raw raw onsets 0 False 1 = Inr ?m" .
  have "hd ?m \<in> set ?m" using m_ne by simp
  then have all: "\<forall>r \<in> set ?m. 1 \<le> length r \<and> length r = length (hd ?m)"
    using rows min1 by auto
  show ?thesis
  proof (intro exI conjI)
    show "parse_raw raw onsets 0 False 1 = Inr ?m" by (rule res)
    show "length ?m = length onsets" using len by (simp add: length_trim_equal_len)
    show "\<forall>r \<in> set ?m. 1 \<le> length r \<and> length r = length (hd ?m)" by (rule all)
  qed
qed

theorem parse_raw_row_count_witness:
  "\<exists>m. parse_raw [10, 20, 30 :: int] [1, 2] 0 False 1 = Inr m \<and> length m = length [1 :: int, 2]
      \<and> (\<forall>r \<in> set m. 1 \<le> length r \<and> length r = length (hd m))"
  using parse_raw_row_count [of "[1, 2]" "[10, 20, 30 :: int]"] by simp

section \<open>Properties of the running mean\<close>









section \<open>Properties of rounding to a double\<close>

lemma finite_binades: "finite (insert (- 1022) {k \<in> {- 1022..1023::int}. P k})"
proof -
  have "finite {k \<in> {- 1022..1023::int}. P k}"
    by (rule finite_subset [of _ "{- 1022..1023}"]) auto
  then show ?thesis by (rule finite.insertI)
qed

lemma binade_eqI:
  assumes "- 1022 \<le> k" and "k \<le> 1023" and "2 powi k \<le> \<bar>x\<bar>"
    and "k < 1023 \<Longrightarrow> \<bar>x\<bar> < 2 powi (k + 1)"
  shows "binade x = k"
  unfolding binade_def
proof (rule Max_eqI)
  show "finite (insert (- 1022) {k \<in> {- 1022..1023}. 2 powi k \<le> \<bar>x\<bar>})"
    by (rule finite_binades)
  show "k \<in> insert (- 1022) {k \<in> {- 1022..1023}. 2 powi k \<le> \<bar>x\<bar>}"
    using assms(1-3) by simp
  fix y assume y: "y \<in> insert (- 1022) {k \<in> {- 1022..1023}. 2 powi k \<le> \<bar>x\<bar>}"
  show "y \<le> k"
  proof (cases "k < 1023")
    case False
    then show ?thesis using y assms(1,2) by auto
  next
    case True
    show ?thesis
    proof (rule ccontr)
      assume "\<not> y \<le> k"
      then have "k + 1 \<le> y" and "y \<noteq> - 1022" using assms(1) by auto
      then have "(2::real) powi (k + 1) \<le> 2 powi y" and "2 powi y \<le> \<bar>x\<bar>"
        using y by (auto intro: power_int_increasing)
      then show False using assms(4) [OF True] by linarith
    qed
  qed
qed

lemma binade_small: "\<bar>x\<bar> < 2 powi (- 1022) \<Longrightarrow> binade x = - 1022"
proof -
  assume small: "\<bar>x\<bar> < 2 powi (- 1022)"
  have "{k \<in> {- 1022..1023}. 2 powi k \<le> \<bar>x\<bar>} = {}"
  proof (rule ccontr)
    assume "{k \<in> {- 1022..1023}. 2 powi k \<le> \<bar>x\<bar>} \<noteq> {}"
    then obtain k where k: "- 1022 \<le> k" and le: "2 powi k \<le> \<bar>x\<bar>" by auto
    have "(2::real) powi (- 1022) \<le> 2 powi k"
      using k by (rule power_int_increasing) simp
    then show False using small le by linarith
  qed
  then have "insert (- 1022) {k \<in> {- 1022..1023}. 2 powi k \<le> \<bar>x\<bar>} = {- 1022}"
    by (rule arg_cong)
  then show ?thesis unfolding binade_def by (simp only: Max_singleton)
qed

lemma binade_range: "- 1022 \<le> binade x \<and> binade x \<le> 1023"
proof -
  let ?S = "insert (- 1022) {k \<in> {- 1022..1023}. 2 powi k \<le> \<bar>x\<bar>}"
  have "finite ?S" and "?S \<noteq> {}" by (rule finite_binades) simp
  then have "Max ?S \<in> ?S" by (rule Max_in)
  then show ?thesis unfolding binade_def by auto
qed

lemma binade_lower: "2 powi (- 1022) \<le> \<bar>x\<bar> \<Longrightarrow> 2 powi (binade x) \<le> \<bar>x\<bar>"
proof -
  assume big: "2 powi (- 1022) \<le> \<bar>x\<bar>"
  let ?S = "insert (- 1022) {k \<in> {- 1022..1023}. 2 powi k \<le> \<bar>x\<bar>}"
  have "finite ?S" and "?S \<noteq> {}" by (rule finite_binades) simp
  then have "Max ?S \<in> ?S" by (rule Max_in)
  then show ?thesis unfolding binade_def using big by auto
qed

lemma binade_ge: "- 1022 \<le> k \<Longrightarrow> k \<le> 1023 \<Longrightarrow> 2 powi k \<le> \<bar>x\<bar> \<Longrightarrow> k \<le> binade x"
  unfolding binade_def by (rule Max_ge) (rule finite_binades, simp)

lemma np_round_of_int: "np_round (real_of_int j) = j"
  by (simp add: np_round_def)

lemma rnd_int:
  assumes "\<bar>k\<bar> \<le> 2 ^ 53"
  shows "rnd (real_of_int k) = Dbl (real_of_int k)"
proof (cases "k = 0")
  case True
  then show ?thesis by (simp add: rnd_def np_round_def)
next
  case False
  let ?x = "real_of_int k"
  let ?e = "binade ?x"
  have one: "1 \<le> \<bar>?x\<bar>" using False by (simp flip: of_int_abs add: of_int_le_iff [symmetric] del: of_int_abs)
  have top: "\<bar>?x\<bar> \<le> 2 ^ 53"
  proof -
    have "real_of_int \<bar>k\<bar> \<le> real_of_int (2 ^ 53)" using assms by (simp only: of_int_le_iff)
    then show ?thesis by simp
  qed
  have "(2::real) powi (- 1022) \<le> 1" by (simp add: power_int_minus_divide)
  then have low: "2 powi ?e \<le> \<bar>?x\<bar>" using one by (intro binade_lower) linarith
  have e0: "0 \<le> ?e" using one by (intro binade_ge) simp_all
  have e53: "?e \<le> 53"
  proof (rule ccontr)
    assume "\<not> ?e \<le> 53"
    then have "(2::real) powi 54 \<le> 2 powi ?e" by (intro power_int_increasing) simp_all
    then show False using low top by simp
  qed
  have "\<exists>j. ?x / 2 powi (?e - 52) = real_of_int j"
  proof (cases "?e = 53")
    case True
    then have "(2::real) ^ 53 \<le> \<bar>?x\<bar>" using low by simp
    then have "\<bar>?x\<bar> = 2 ^ 53" using top by linarith
    then have "?x = 2 ^ 53 \<or> ?x = - (2 ^ 53)" by (simp add: abs_if split: if_splits)
    then have "?x / 2 powi (?e - 52) = real_of_int (2 ^ 52) \<or> ?x / 2 powi (?e - 52) = real_of_int (- (2 ^ 52))"
      using True by auto
    then show ?thesis by blast
  next
    case False
    then have le: "?e \<le> 52" using e53 by simp
    have "2 powi (?e - 52) = 1 / (2::real) powi (52 - ?e)"
      using power_int_minus_divide [of "2::real" "52 - ?e"] by simp
    also have "(2::real) powi (52 - ?e) = 2 ^ nat (52 - ?e)"
      using le by (simp add: power_int_nonneg_exp)
    finally have "?x / 2 powi (?e - 52) = real_of_int (k * 2 ^ nat (52 - ?e))"
      by simp
    then show ?thesis by blast
  qed
  then obtain j where j: "?x / 2 powi (?e - 52) = real_of_int j" by blast
  have "real_of_int j * 2 powi (?e - 52) = ?x"
    using j [symmetric] by simp
  moreover have "\<bar>?x\<bar> < 2 powi 1024"
  proof -
    have "(2::real) ^ 53 < 2 powi 1024" by simp
    then show ?thesis using top by linarith
  qed
  ultimately show ?thesis
    by (simp add: rnd_def Let_def j np_round_of_int)
qed

lemma rnd_binade:
  "binade x = k \<Longrightarrow>
   rnd x = (let y = real_of_int (np_round (x / 2 powi (k - 52))) * 2 powi (k - 52)
            in if 2 powi 1024 \<le> \<bar>y\<bar> then (if 0 < y then PInf else NInf) else Dbl y)"
  by (simp add: rnd_def Let_def)

lemma rnd_not_nan: "rnd x \<noteq> DNaN"
  by (simp add: rnd_def Let_def)

section \<open>Properties of the binarization\<close>

lemma pairwise_sum_short: "length a < 8 \<Longrightarrow> pairwise_sum a = foldl d_add (Dbl 0) a"
  by (simp add: pairwise_sum.simps)

lemma rnd_tenth: "rnd (3602879701896397 / 2 ^ 55) = Dbl (3602879701896397 / 2 ^ 55)"
proof -
  have b: "binade (3602879701896397 / 2 ^ 55) = - 4"
    by (rule binade_eqI) (simp_all add: power_int_minus_divide)
  show ?thesis
    unfolding rnd_binade [OF b] by (simp add: power_int_minus_divide np_round_def Let_def)
qed

lemma rnd_two_tenths:
  "rnd (3602879701896397 / 2 ^ 55 + 3602879701896397 / 2 ^ 55) = Dbl (3602879701896397 / 2 ^ 54)"
proof -
  have b: "binade (3602879701896397 / 2 ^ 55 + 3602879701896397 / 2 ^ 55) = - 3"
    by (rule binade_eqI) (simp_all add: power_int_minus_divide)
  show ?thesis
    unfolding rnd_binade [OF b] by (simp add: power_int_minus_divide np_round_def Let_def)
qed

lemma rnd_three_tenths:
  "rnd (3602879701896397 / 2 ^ 54 + 3602879701896397 / 2 ^ 55) = Dbl (1351079888211149 / 2 ^ 52)"
proof -
  have b: "binade (3602879701896397 / 2 ^ 54 + 3602879701896397 / 2 ^ 55) = - 2"
    by (rule binade_eqI) (simp_all add: power_int_minus_divide)
  show ?thesis
    unfolding rnd_binade [OF b] by (simp add: power_int_minus_divide np_round_def Let_def)
qed

lemma rnd_sum_again: "rnd (0 + 1351079888211149 / 2 ^ 52) = Dbl (1351079888211149 / 2 ^ 52)"
proof -
  have b: "binade (0 + 1351079888211149 / 2 ^ 52) = - 2"
    by (rule binade_eqI) (simp_all add: power_int_minus_divide)
  show ?thesis
    unfolding rnd_binade [OF b] by (simp add: power_int_minus_divide np_round_def Let_def)
qed

lemma rnd_mean_tenths:
  "rnd (1351079888211149 / 2 ^ 52 / 3) = Dbl (7205759403792795 / 2 ^ 56)"
proof -
  have b: "binade (1351079888211149 / 2 ^ 52 / 3) = - 4"
    by (rule binade_eqI) (simp_all add: power_int_minus_divide)
  show ?thesis
    unfolding rnd_binade [OF b] by (simp add: power_int_minus_divide np_round_def Let_def)
qed

lemma rnd_3: "rnd 3 = Dbl 3"
  using rnd_int [of 3] by simp

lemma mean_three_tenths:
  "np_mean64 [Dbl (3602879701896397 / 2 ^ 55), Dbl (3602879701896397 / 2 ^ 55),
              Dbl (3602879701896397 / 2 ^ 55)] = Dbl (7205759403792795 / 2 ^ 56)"
proof -
  let ?a = "3602879701896397 / 2 ^ 55 :: real"
  have s1: "d_add (Dbl 0) (Dbl ?a) = Dbl ?a"
    using rnd_tenth by simp
  have s2: "d_add (Dbl ?a) (Dbl ?a) = Dbl (3602879701896397 / 2 ^ 54)"
    by (simp only: d_add.simps rnd_two_tenths)
  have s3: "d_add (Dbl (3602879701896397 / 2 ^ 54)) (Dbl ?a) = Dbl (1351079888211149 / 2 ^ 52)"
    by (simp only: d_add.simps rnd_three_tenths)
  have sum: "pairwise_sum [Dbl ?a, Dbl ?a, Dbl ?a] = Dbl (1351079888211149 / 2 ^ 52)"
    by (simp only: pairwise_sum_short list.size foldl.simps s1 s2 s3)
  have s4: "d_add (Dbl 0) (Dbl (1351079888211149 / 2 ^ 52)) = Dbl (1351079888211149 / 2 ^ 52)"
    by (simp only: d_add.simps rnd_sum_again)
  have len: "rnd (real (length [Dbl ?a, Dbl ?a, Dbl ?a])) = Dbl 3"
    using rnd_3 by simp
  have "d_div (Dbl (1351079888211149 / 2 ^ 52)) (Dbl 3) = rnd (1351079888211149 / 2 ^ 52 / 3)"
    by simp
  then have m: "d_div (Dbl (1351079888211149 / 2 ^ 52)) (Dbl 3) = Dbl (7205759403792795 / 2 ^ 56)"
    by (simp only: rnd_mean_tenths)
  show ?thesis
    unfolding np_mean64_def sum s4 len m ..
qed


lemma rnd_1: "rnd 1 = Dbl 1"
  using rnd_int [of 1] by simp

lemma d_lt_irrefl: "\<not> d_lt x x"
  by (cases x) simp_all

lemma mean_single:
  assumes "\<forall>r. x = Dbl r \<longrightarrow> rnd r = Dbl r"
  shows "np_mean64 [x] = x"
proof (cases x)
  case (Dbl r)
  then have r: "rnd r = Dbl r" using assms by simp
  have "pairwise_sum [x] = d_add (Dbl 0) x"
    by (simp add: pairwise_sum_short)
  then have "pairwise_sum [x] = x" using Dbl r by simp
  then show ?thesis using Dbl r by (simp add: np_mean64_def rnd_1)
qed (simp_all add: np_mean64_def pairwise_sum_short rnd_1)

lemma d_add_int:
  "\<bar>a + b\<bar> \<le> 2 ^ 53 \<Longrightarrow>
   d_add (Dbl (real_of_int a)) (Dbl (real_of_int b)) = Dbl (real_of_int (a + b))"
  using rnd_int [of "a + b"] by simp

lemma foldl_constant:
  "\<bar>a\<bar> + int m * \<bar>c\<bar> \<le> 2 ^ 53 \<Longrightarrow>
   foldl d_add (Dbl (real_of_int a)) (replicate m (Dbl (real_of_int c)))
     = Dbl (real_of_int (a + int m * c))"
proof (induction m arbitrary: a)
  case 0
  then show ?case by simp
next
  case (Suc m)
  have le: "\<bar>a + c\<bar> + int m * \<bar>c\<bar> \<le> 2 ^ 53"
  proof -
    have "\<bar>a + c\<bar> \<le> \<bar>a\<bar> + \<bar>c\<bar>" by simp
    moreover have "\<bar>a\<bar> + int (Suc m) * \<bar>c\<bar> = \<bar>a\<bar> + \<bar>c\<bar> + int m * \<bar>c\<bar>"
      by (simp add: algebra_simps)
    ultimately show ?thesis using Suc.prems by linarith
  qed
  have "0 \<le> int m * \<bar>c\<bar>" by simp
  then have "\<bar>a + c\<bar> \<le> 2 ^ 53" using le by linarith
  then have step: "d_add (Dbl (real_of_int a)) (Dbl (real_of_int c)) = Dbl (real_of_int (a + c))"
    by (rule d_add_int)
  have "foldl d_add (Dbl (real_of_int a)) (replicate (Suc m) (Dbl (real_of_int c)))
      = foldl d_add (Dbl (real_of_int (a + c))) (replicate m (Dbl (real_of_int c)))"
    by (simp only: replicate_Suc foldl_Cons step)
  also have "\<dots> = Dbl (real_of_int (a + c + int m * c))"
    using le by (rule Suc.IH)
  also have "a + c + int m * c = a + int (Suc m) * c"
    by (simp add: algebra_simps)
  finally show ?case .
qed

lemma map2_constant:
  "map2 f (replicate n x) (replicate n y) = replicate n (f x y)"
  by (simp add: zip_replicate map_replicate)

lemma accumulate8_constant:
  "(j + int (m div 8)) * \<bar>c\<bar> \<le> 2 ^ 53 \<Longrightarrow> 0 \<le> j \<Longrightarrow>
   accumulate8 (replicate 8 (Dbl (real_of_int (j * c)))) (replicate m (Dbl (real_of_int c)))
     = replicate 8 (Dbl (real_of_int ((j + int (m div 8)) * c)))"
proof (induction m arbitrary: j rule: less_induct)
  case (less m)
  show ?case
  proof (cases "m < 8")
    case True
    then show ?thesis by simp
  next
    case False
    then have m8: "8 \<le> m" by simp
    have dv: "m div 8 = Suc ((m - 8) div 8)"
      using m8 by (simp add: le_div_geq)
    have tk: "take 8 (replicate m (Dbl (real_of_int c))) = replicate 8 (Dbl (real_of_int c))"
      using m8 by (simp add: min_def)
    have dr: "drop 8 (replicate m (Dbl (real_of_int c))) = replicate (m - 8) (Dbl (real_of_int c))"
      by simp
    have b1: "(j + 1 + int ((m - 8) div 8)) * \<bar>c\<bar> \<le> 2 ^ 53"
      using less.prems(1) dv by (simp add: algebra_simps)
    have "0 \<le> int ((m - 8) div 8) * \<bar>c\<bar>" by simp
    moreover have "(j + 1 + int ((m - 8) div 8)) * \<bar>c\<bar>
                     = (j + 1) * \<bar>c\<bar> + int ((m - 8) div 8) * \<bar>c\<bar>"
      by (simp add: algebra_simps)
    ultimately have "(j + 1) * \<bar>c\<bar> \<le> 2 ^ 53"
      using b1 by linarith
    moreover have "\<bar>j * c + c\<bar> = (j + 1) * \<bar>c\<bar>"
    proof -
      have "j * c + c = (j + 1) * c" by (simp add: algebra_simps)
      then show ?thesis using less.prems(2) by (simp add: abs_mult)
    qed
    ultimately have "\<bar>j * c + c\<bar> \<le> 2 ^ 53" by simp
    then have "d_add (Dbl (real_of_int (j * c))) (Dbl (real_of_int c))
                 = Dbl (real_of_int (j * c + c))"
      by (rule d_add_int)
    moreover have "j * c + c = (j + 1) * c" by (simp add: algebra_simps)
    ultimately have st: "d_add (Dbl (real_of_int (j * c))) (Dbl (real_of_int c))
                 = Dbl (real_of_int ((j + 1) * c))"
      by simp
    have "accumulate8 (replicate 8 (Dbl (real_of_int (j * c)))) (replicate m (Dbl (real_of_int c)))
        = accumulate8 (map2 d_add (replicate 8 (Dbl (real_of_int (j * c))))
                         (take 8 (replicate m (Dbl (real_of_int c)))))
                      (drop 8 (replicate m (Dbl (real_of_int c))))"
      using False by (subst accumulate8.simps) simp
    also have "\<dots> = accumulate8 (replicate 8 (Dbl (real_of_int ((j + 1) * c))))
                        (replicate (m - 8) (Dbl (real_of_int c)))"
      unfolding tk dr map2_constant st ..
    also have "\<dots> = replicate 8 (Dbl (real_of_int ((j + 1 + int ((m - 8) div 8)) * c)))"
      using m8 b1 less.prems(2) by (intro less.IH) simp_all
    also have "j + 1 + int ((m - 8) div 8) = j + int (m div 8)"
      using dv by simp
    finally show ?thesis .
  qed
qed

lemma sum8_constant:
  assumes "8 * \<bar>k\<bar> \<le> 2 ^ 53"
  shows "sum8 (replicate 8 (Dbl (real_of_int k))) = Dbl (real_of_int (8 * k))"
proof -
  have a2: "d_add (Dbl (real_of_int k)) (Dbl (real_of_int k)) = Dbl (real_of_int (2 * k))"
    using d_add_int [of k k] assms by simp
  have a4: "d_add (Dbl (real_of_int (2 * k))) (Dbl (real_of_int (2 * k))) = Dbl (real_of_int (4 * k))"
    using d_add_int [of "2 * k" "2 * k"] assms by simp
  have a8: "d_add (Dbl (real_of_int (4 * k))) (Dbl (real_of_int (4 * k))) = Dbl (real_of_int (8 * k))"
    using d_add_int [of "4 * k" "4 * k"] assms by simp
  show ?thesis
    unfolding sum8_def by (simp only: nth_replicate a2 a4 a8)
qed

lemma pairwise_sum_constant:
  "int n * \<bar>c\<bar> \<le> 2 ^ 53 \<Longrightarrow>
   pairwise_sum (replicate n (Dbl (real_of_int c))) = Dbl (real_of_int (int n * c))"
proof (induction n rule: less_induct)
  case (less n)
  let ?x = "Dbl (real_of_int c)"
  consider "n < 8" | "8 \<le> n" "n \<le> 128" | "128 < n" by linarith
  then show ?case
  proof cases
    case 1
    have "pairwise_sum (replicate n ?x) = foldl d_add (Dbl (real_of_int 0)) (replicate n ?x)"
      using 1 by (simp add: pairwise_sum_short)
    also have "\<dots> = Dbl (real_of_int (0 + int n * c))"
      using less.prems by (intro foldl_constant) simp
    finally show ?thesis by simp
  next
    case 2
    let ?q = "n div 8" and ?r = "n mod 8"
    have q1: "1 \<le> ?q" using 2(1) by (simp add: Suc_le_eq div_greater_zero_iff)
    have n: "n = 8 * ?q + ?r" by simp
    have whole: "n - ?r = 8 * ?q" using n by arith
    have tk: "take (n - ?r) (replicate n ?x) = replicate (8 * ?q) ?x"
      unfolding whole by (simp add: min_def)
    have hd8: "take 8 (replicate n ?x) = replicate 8 ?x"
      using 2(1) by (simp add: min_def)
    have rest: "drop 8 (replicate (8 * ?q) ?x) = replicate (8 * (?q - 1)) ?x"
      by (simp add: algebra_simps)
    have tl: "drop (n - ?r) (replicate n ?x) = replicate ?r ?x"
      unfolding whole by (simp add: minus_mult_div_eq_mod)
    have qc: "int ?q * \<bar>c\<bar> \<le> 2 ^ 53"
    proof -
      have "int ?q \<le> int n" by simp
      then have "int ?q * \<bar>c\<bar> \<le> int n * \<bar>c\<bar>" by (intro mult_right_mono) simp_all
      then show ?thesis using less.prems by linarith
    qed
    have dq: "(8 * (?q - 1)) div 8 = ?q - 1" by simp
    have qm: "1 + int ((8 * (?q - 1)) div 8) = int ?q"
      unfolding dq using q1 by (simp add: of_nat_diff)
    have "(1 + int ((8 * (?q - 1)) div 8)) * \<bar>c\<bar> \<le> 2 ^ 53"
      unfolding qm by (rule qc)
    then have "accumulate8 (replicate 8 (Dbl (real_of_int (1 * c)))) (replicate (8 * (?q - 1)) ?x)
            = replicate 8 (Dbl (real_of_int ((1 + int ((8 * (?q - 1)) div 8)) * c)))"
      by (rule accumulate8_constant) simp
    then have acc: "accumulate8 (replicate 8 ?x) (replicate (8 * (?q - 1)) ?x)
            = replicate 8 (Dbl (real_of_int (int ?q * c)))"
      unfolding qm by simp
    have e8: "8 * \<bar>int ?q * c\<bar> \<le> 2 ^ 53"
    proof -
      have "int (8 * ?q) \<le> int n" using n by linarith
      then have "int (8 * ?q) * \<bar>c\<bar> \<le> int n * \<bar>c\<bar>" by (intro mult_right_mono) simp_all
      moreover have "8 * \<bar>int ?q * c\<bar> = int (8 * ?q) * \<bar>c\<bar>"
        by (simp add: abs_mult)
      ultimately show ?thesis using less.prems by linarith
    qed
    have s8: "sum8 (replicate 8 (Dbl (real_of_int (int ?q * c)))) = Dbl (real_of_int (8 * (int ?q * c)))"
      using e8 by (rule sum8_constant)
    have fb: "\<bar>8 * (int ?q * c)\<bar> + int ?r * \<bar>c\<bar> \<le> 2 ^ 53"
    proof -
      have "\<bar>8 * (int ?q * c)\<bar> + int ?r * \<bar>c\<bar> = (8 * int ?q + int ?r) * \<bar>c\<bar>"
        by (simp add: abs_mult algebra_simps)
      also have "8 * int ?q + int ?r = int n" using n by linarith
      finally show ?thesis using less.prems by simp
    qed
    have "pairwise_sum (replicate n ?x)
        = foldl d_add
            (sum8 (accumulate8 (take 8 (replicate n ?x))
                     (drop 8 (take (n - ?r) (replicate n ?x)))))
            (drop (n - ?r) (replicate n ?x))"
      using 2 by (subst pairwise_sum.simps) simp
    also have "\<dots> = foldl d_add (Dbl (real_of_int (8 * (int ?q * c)))) (replicate ?r ?x)"
      unfolding tk hd8 rest tl acc s8 ..
    also have "\<dots> = Dbl (real_of_int (8 * (int ?q * c) + int ?r * c))"
      using fb by (rule foldl_constant)
    also have "8 * (int ?q * c) + int ?r * c = int n * c"
    proof -
      have "8 * (int ?q * c) + int ?r * c = (8 * int ?q + int ?r) * c"
        by (simp add: algebra_simps)
      also have "8 * int ?q + int ?r = int n" using n by linarith
      finally show ?thesis .
    qed
    finally show ?thesis .
  next
    case 3
    let ?h = "n div 2 - n div 2 mod 8"
    have h1: "?h < n" using 3 by arith
    have h2: "n - ?h < n" using 3 by arith
    have hle: "?h \<le> n" using h1 by simp
    have tk: "take ?h (replicate n ?x) = replicate ?h ?x"
      using hle by (simp add: min_def)
    have dr: "drop ?h (replicate n ?x) = replicate (n - ?h) ?x"
      by simp
    have b1: "int ?h * \<bar>c\<bar> \<le> 2 ^ 53"
    proof -
      have "int ?h \<le> int n" using hle by simp
      then have "int ?h * \<bar>c\<bar> \<le> int n * \<bar>c\<bar>" by (intro mult_right_mono) simp_all
      then show ?thesis using less.prems by linarith
    qed
    have b2: "int (n - ?h) * \<bar>c\<bar> \<le> 2 ^ 53"
    proof -
      have "int (n - ?h) \<le> int n" by simp
      then have "int (n - ?h) * \<bar>c\<bar> \<le> int n * \<bar>c\<bar>" by (intro mult_right_mono) simp_all
      then show ?thesis using less.prems by linarith
    qed
    have p1: "pairwise_sum (replicate ?h ?x) = Dbl (real_of_int (int ?h * c))"
      using h1 b1 by (rule less.IH)
    have p2: "pairwise_sum (replicate (n - ?h) ?x) = Dbl (real_of_int (int (n - ?h) * c))"
      using h2 b2 by (rule less.IH)
    have tot: "int ?h * c + int (n - ?h) * c = int n * c"
    proof -
      have "int ?h + int (n - ?h) = int n" using hle by simp
      then have "(int ?h + int (n - ?h)) * c = int n * c" by simp
      then show ?thesis by (simp add: algebra_simps)
    qed
    have bs: "\<bar>int ?h * c + int (n - ?h) * c\<bar> \<le> 2 ^ 53"
      unfolding tot using less.prems by (simp add: abs_mult)
    have "pairwise_sum (replicate n ?x)
        = d_add (pairwise_sum (take ?h (replicate n ?x))) (pairwise_sum (drop ?h (replicate n ?x)))"
      using 3 by (subst pairwise_sum.simps) simp
    also have "\<dots> = d_add (Dbl (real_of_int (int ?h * c))) (Dbl (real_of_int (int (n - ?h) * c)))"
      unfolding tk dr p1 p2 ..
    also have "\<dots> = Dbl (real_of_int (int ?h * c + int (n - ?h) * c))"
      using bs by (rule d_add_int)
    finally show ?thesis unfolding tot .
  qed
qed

lemma np_round_ge_floor: "\<lfloor>z\<rfloor> \<le> np_round z"
  by (simp add: np_round_def Let_def)

lemma rnd_positive:
  assumes "1 \<le> x"
  shows "rnd x = PInf \<or> (\<exists>y. 0 < y \<and> rnd x = Dbl y)"
proof -
  let ?k = "binade x"
  let ?u = "2 powi (?k - 52) :: real"
  let ?y = "real_of_int (np_round (x / ?u)) * ?u"
  have ax: "\<bar>x\<bar> = x" using assms by simp
  have "(2::real) powi (- 1022) \<le> 2 powi 0"
    by (rule power_int_increasing) simp_all
  then have "2 powi (- 1022) \<le> \<bar>x\<bar>" using assms by simp
  then have low: "2 powi ?k \<le> x" using binade_lower [of x] ax by simp
  have "?u \<le> 2 powi ?k"
    by (rule power_int_increasing) simp_all
  then have ux: "?u \<le> x" using low by linarith
  have upos: "0 < ?u" by simp
  have "1 \<le> x / ?u" using ux upos by simp
  then have "1 \<le> \<lfloor>x / ?u\<rfloor>" by linarith
  then have "1 \<le> np_round (x / ?u)" using np_round_ge_floor [of "x / ?u"] by linarith
  then have "0 < real_of_int (np_round (x / ?u))" by simp
  then have ypos: "0 < ?y" using upos by (rule mult_pos_pos)
  have "rnd x = (if 2 powi 1024 \<le> \<bar>?y\<bar> then (if 0 < ?y then PInf else NInf) else Dbl ?y)"
    using rnd_binade [of x ?k] by (simp add: Let_def)
  then show ?thesis using ypos by (cases "2 powi 1024 \<le> \<bar>?y\<bar>") auto
qed

lemma mean_constant_integer:
  assumes "0 < n" and "int n * \<bar>c\<bar> \<le> 2 ^ 53"
  shows "np_mean64 (replicate n (Dbl (real_of_int c))) = Dbl (real_of_int c)"
proof -
  have ps: "pairwise_sum (replicate n (Dbl (real_of_int c))) = Dbl (real_of_int (int n * c))"
    using assms(2) by (rule pairwise_sum_constant)
  have "\<bar>0 + int n * c\<bar> \<le> 2 ^ 53" using assms(2) by (simp add: abs_mult)
  then have "d_add (Dbl (real_of_int 0)) (Dbl (real_of_int (int n * c)))
               = Dbl (real_of_int (0 + int n * c))"
    by (rule d_add_int)
  then have tot: "d_add (Dbl 0) (pairwise_sum (replicate n (Dbl (real_of_int c))))
               = Dbl (real_of_int (int n * c))"
    using ps by simp
  show ?thesis
  proof (cases "c = 0")
    case True
    have "1 \<le> real n" using assms(1) by simp
    then have "rnd (real n) = PInf \<or> (\<exists>y. 0 < y \<and> rnd (real n) = Dbl y)"
      by (rule rnd_positive)
    moreover have "rnd 0 = Dbl 0" using rnd_int [of 0] by simp
    ultimately have "d_div (Dbl 0) (rnd (real n)) = Dbl 0" by auto
    then show ?thesis using tot True by (simp add: np_mean64_def)
  next
    case False
    then have "1 \<le> \<bar>c\<bar>" by simp
    then have "int n * 1 \<le> int n * \<bar>c\<bar>" by (intro mult_left_mono) simp_all
    then have nb: "\<bar>int n\<bar> \<le> 2 ^ 53" using assms(2) by simp
    have rn: "rnd (real n) = Dbl (real n)" using rnd_int [OF nb] by simp
    have "1 * \<bar>c\<bar> \<le> int n * \<bar>c\<bar>" using assms(1) by (intro mult_right_mono) simp_all
    then have cb: "\<bar>c\<bar> \<le> 2 ^ 53" using assms(2) by simp
    have "real_of_int (int n * c) / real n = real_of_int c" using assms(1) by simp
    then have "d_div (Dbl (real_of_int (int n * c))) (Dbl (real n)) = Dbl (real_of_int c)"
      using assms(1) rnd_int [OF cb] by simp
    then show ?thesis using tot rn by (simp add: np_mean64_def)
  qed
qed

lemma binarize_constant_integer:
  assumes "\<forall>x \<in> set xs. x = Dbl (real_of_int k)" and "int (length xs) * \<bar>k\<bar> \<le> 2 ^ 53"
  shows "simply_mean_data_binarize xs = replicate (length xs) 1"
proof (cases "xs = []")
  case True
  then show ?thesis by (simp add: simply_mean_data_binarize_def)
next
  case False
  have xs: "xs = replicate (length xs) (Dbl (real_of_int k))"
    using assms(1) by (simp add: replicate_length_same)
  have "np_mean64 (replicate (length xs) (Dbl (real_of_int k))) = Dbl (real_of_int k)"
    using False assms(2) by (intro mean_constant_integer) simp_all
  then have m: "np_mean64 xs = Dbl (real_of_int k)" using xs by simp
  have "map (\<lambda>i. if d_lt i (np_mean64 xs) then 0 else (1::int)) xs = map (\<lambda>i. 1) xs"
    using assms(1) m by (intro map_cong) auto
  then show ?thesis
    by (simp add: simply_mean_data_binarize_def map_replicate_const)
qed

text \<open>
  C9. Claimed: every non-empty constant signal is mapped to 1s only, no sample being
  below the mean. The mean is the one \<open>np.mean\<close> computes. For three samples of 0.1
  (the double \<open>3602879701896397 / 2^55\<close>) the sum is rounded up and the computed mean is
  \<open>7205759403792795 / 2^56\<close>, the next double above 0.1: every sample is strictly below
  it and the output is 0s only.
\<close>

theorem binarize_by_mean_counterexample:
  "simply_mean_data_binarize
     [Dbl (3602879701896397 / 2 ^ 55), Dbl (3602879701896397 / 2 ^ 55),
      Dbl (3602879701896397 / 2 ^ 55)] = [0, 0, 0]"
  unfolding simply_mean_data_binarize_def mean_three_tenths by simp

text \<open>
  C9, as the code has it: for every signal, \<open>simply_mean_data_binarize\<close> returns a
  sequence of the same length in which an element is 0 exactly when the corresponding
  sample is strictly below the mean as \<open>np.mean\<close> computes it in double precision, and 1
  otherwise. A constant signal therefore gives a constant output: 1s only when the
  computed mean is not above the constant, 0s only when rounding puts the computed mean
  above it. The output is 1s only for every signal of one sample, and for every constant
  signal of \<open>n\<close> samples of an integer value \<open>k\<close> with \<open>n * |k| \<le> 2^53\<close>, where every sum
  and the quotient are exact.
\<close>

theorem binarize_by_mean:
  "length (simply_mean_data_binarize xs) = length xs
   \<and> (\<forall>i < length xs.
        simply_mean_data_binarize xs ! i = (if d_lt (xs ! i) (np_mean64 xs) then 0 else 1))
   \<and> ((\<forall>x \<in> set xs. x = c) \<longrightarrow>
        simply_mean_data_binarize xs
          = replicate (length xs) (if d_lt c (np_mean64 xs) then 0 else 1))
   \<and> ((\<forall>r. x = Dbl r \<longrightarrow> rnd r = Dbl r) \<longrightarrow> simply_mean_data_binarize [x] = [1])
   \<and> ((\<forall>x \<in> set xs. x = Dbl (real_of_int k)) \<and> int (length xs) * \<bar>k\<bar> \<le> 2 ^ 53
        \<longrightarrow> simply_mean_data_binarize xs = replicate (length xs) 1)"
proof (intro conjI impI)
  show "length (simply_mean_data_binarize xs) = length xs"
    by (simp add: simply_mean_data_binarize_def)
next
  show "\<forall>i < length xs.
        simply_mean_data_binarize xs ! i = (if d_lt (xs ! i) (np_mean64 xs) then 0 else 1)"
    by (simp add: simply_mean_data_binarize_def)
next
  assume const: "\<forall>x \<in> set xs. x = c"
  have "map (\<lambda>i. if d_lt i (np_mean64 xs) then 0 else (1::int)) xs
          = map (\<lambda>i. if d_lt c (np_mean64 xs) then 0 else 1) xs"
    using const by (intro map_cong) auto
  then show "simply_mean_data_binarize xs
          = replicate (length xs) (if d_lt c (np_mean64 xs) then 0 else 1)"
    by (simp add: simply_mean_data_binarize_def map_replicate_const)
next
  assume "\<forall>r. x = Dbl r \<longrightarrow> rnd r = Dbl r"
  then have "np_mean64 [x] = x" by (rule mean_single)
  then show "simply_mean_data_binarize [x] = [1]"
    by (simp add: simply_mean_data_binarize_def d_lt_irrefl)
next
  assume h: "(\<forall>x \<in> set xs. x = Dbl (real_of_int k)) \<and> int (length xs) * \<bar>k\<bar> \<le> 2 ^ 53"
  then have "\<forall>x \<in> set xs. x = Dbl (real_of_int k)"
    and "int (length xs) * \<bar>k\<bar> \<le> 2 ^ 53" by simp_all
  then show "simply_mean_data_binarize xs = replicate (length xs) 1"
    by (rule binarize_constant_integer)
qed

theorem binarize_by_mean_witness:
  "simply_mean_data_binarize [Dbl 5] = [1]
   \<and> simply_mean_data_binarize [Dbl 2, Dbl 2] ! 1 = 1
   \<and> simply_mean_data_binarize [Dbl 3, Dbl 3, Dbl 3] = [1, 1, 1]"
proof -
  have r5: "rnd 5 = Dbl 5" using rnd_int [of 5] by simp
  have r2: "rnd 2 = Dbl 2" using rnd_int [of 2] by simp
  have r4: "rnd 4 = Dbl 4" using rnd_int [of 4] by simp
  have a: "simply_mean_data_binarize [Dbl 5] = [1]"
    using binarize_by_mean [where xs = "[]" and x = "Dbl 5"] r5 by simp
  have "pairwise_sum [Dbl 2, Dbl 2] = Dbl 4"
    by (simp add: pairwise_sum_short r2 r4)
  then have m: "np_mean64 [Dbl 2, Dbl 2] = Dbl 2"
    by (simp add: np_mean64_def r4 r2)
  have b: "simply_mean_data_binarize [Dbl 2, Dbl 2] ! 1 = 1"
    using binarize_by_mean [where xs = "[Dbl 2, Dbl 2]"] m by simp
  have c: "simply_mean_data_binarize [Dbl 3, Dbl 3, Dbl 3] = [1, 1, 1]"
    using binarize_by_mean [where xs = "[Dbl 3, Dbl 3, Dbl 3]" and k = 3]
    by (simp add: numeral_3_eq_3)
  show ?thesis using a b c by simp
qed

section \<open>Properties of the closest-index search\<close>

lemma argmin_scan_prefix:
  "mi < length pre \<Longrightarrow> m = pre ! mi \<Longrightarrow> \<forall>j < length pre. m \<le> pre ! j \<Longrightarrow>
   \<forall>j < mi. m < pre ! j \<Longrightarrow> r = argmin_scan (Fin m) mi (length pre) (map Fin xs) \<Longrightarrow>
   r < length (pre @ xs) \<and> (\<forall>j < length (pre @ xs). (pre @ xs) ! r \<le> (pre @ xs) ! j)
     \<and> (\<forall>j < r. (pre @ xs) ! r < (pre @ xs) ! j)"
proof (induction xs arbitrary: pre mi m)
  case Nil
  then show ?case by simp
next
  case (Cons x xs)
  let ?pre = "pre @ [x]"
  have len: "length ?pre = Suc (length pre)" by simp
  show ?case
  proof (cases "x < m")
    case True
    then have r: "r = argmin_scan (Fin x) (length pre) (length ?pre) (map Fin xs)"
      using Cons.prems(5) by (simp add: isnan_def)
    have a: "length pre < length ?pre" by simp
    have b: "x = ?pre ! length pre" by simp
    have c: "\<forall>j < length ?pre. x \<le> ?pre ! j"
      using True Cons.prems(3) by (auto simp: nth_append less_Suc_eq)
    have d: "\<forall>j < length pre. x < ?pre ! j"
      using True Cons.prems(3) by (auto simp: nth_append)
    show ?thesis
      using Cons.IH [OF a b c d r] by simp
  next
    case False
    then have r: "r = argmin_scan (Fin m) mi (length ?pre) (map Fin xs)"
      using Cons.prems(5) by simp
    have a: "mi < length ?pre" using Cons.prems(1) by simp
    have b: "m = ?pre ! mi" using Cons.prems(1,2) by (simp add: nth_append)
    have c: "\<forall>j < length ?pre. m \<le> ?pre ! j"
      using False Cons.prems(3) by (auto simp: nth_append less_Suc_eq)
    have d: "\<forall>j < mi. m < ?pre ! j"
      using Cons.prems(1,4) by (auto simp: nth_append)
    show ?thesis
      using Cons.IH [OF a b c d r] by simp
  qed
qed

lemma np_argmin_Fin:
  assumes "rs \<noteq> []"
  shows "\<exists>i. np_argmin (map Fin rs) = Inr i \<and> i < length rs
           \<and> (\<forall>j < length rs. rs ! i \<le> rs ! j) \<and> (\<forall>j < i. rs ! i < rs ! j)"
proof -
  obtain x xs where rs: "rs = x # xs" using assms by (cases rs) auto
  let ?r = "argmin_scan (Fin x) 0 (length [x]) (map Fin xs)"
  have "?r < length ([x] @ xs) \<and> (\<forall>j < length ([x] @ xs). ([x] @ xs) ! ?r \<le> ([x] @ xs) ! j)
     \<and> (\<forall>j < ?r. ([x] @ xs) ! ?r < ([x] @ xs) ! j)"
    by (rule argmin_scan_prefix [where mi = 0 and m = x]) simp_all
  moreover have "np_argmin (map Fin rs) = Inr ?r"
    by (simp add: np_argmin_def rs isnan_def)
  ultimately show ?thesis by (simp add: rs)
qed

lemma nan_free_reals: "NaN \<notin> set data \<Longrightarrow> \<exists>rs. data = map Fin rs"
proof (induction data)
  case Nil
  then show ?case by simp
next
  case (Cons x data)
  then obtain rs where "data = map Fin rs" by auto
  moreover obtain r where "x = Fin r" using Cons.prems by (cases x) auto
  ultimately have "x # data = map Fin (r # rs)" by simp
  then show ?case by (rule exI)
qed

lemma list_ex_isnan: "list_ex isnan data \<longleftrightarrow> NaN \<in> set data"
  by (auto simp: list_ex_iff isnan_def)

lemma find_closest_index_result:
  assumes "data \<noteq> []" and "NaN \<notin> set data"
  shows "\<exists>i. find_closest_index data p = Inr i \<and> i < length data
           \<and> (\<forall>j < length data. \<not> f_lt (f_abs (f_sub (data ! j) p)) (f_abs (f_sub (data ! i) p)))
           \<and> (\<forall>j < i. f_abs (f_sub (data ! j) p) \<noteq> f_abs (f_sub (data ! i) p))"
proof -
  obtain rs where data: "data = map Fin rs" using assms(2) nan_free_reals by blast
  have rs: "rs \<noteq> []" using assms(1) data by simp
  have fci: "find_closest_index data p = np_argmin (map (\<lambda>x. f_abs (f_sub x p)) data)"
    using assms(2) by (simp add: find_closest_index_def list_ex_isnan)
  show ?thesis
  proof (cases p)
    case NaN
    obtain r rs' where "rs = r # rs'" using rs by (cases rs) auto
    then have "find_closest_index data p = Inr 0"
      using fci NaN data by (simp add: np_argmin_def isnan_def)
    then show ?thesis using assms(1) NaN data by simp
  next
    case (Fin q)
    let ?ds = "map (\<lambda>r. \<bar>r - q\<bar>) rs"
    have m: "map (\<lambda>x. f_abs (f_sub x p)) data = map Fin ?ds"
      by (simp add: data Fin)
    have "?ds \<noteq> []" using rs by simp
    from np_argmin_Fin [OF this] obtain i where i: "np_argmin (map Fin ?ds) = Inr i"
      "i < length ?ds" "\<forall>j < length ?ds. ?ds ! i \<le> ?ds ! j" "\<forall>j < i. ?ds ! i < ?ds ! j"
      by blast
    have "find_closest_index data p = Inr i" using fci m i(1) by simp
    moreover have "i < length data" using i(2) data by simp
    moreover have "\<forall>j < length data. \<not> f_lt (f_abs (f_sub (data ! j) p)) (f_abs (f_sub (data ! i) p))"
      using i(2,3) by (auto simp: data Fin)
    moreover have "\<forall>j < i. f_abs (f_sub (data ! j) p) \<noteq> f_abs (f_sub (data ! i) p)"
      using i(2,4) by (auto simp: data Fin)
    ultimately show ?thesis by blast
  qed
qed

text \<open>
  C3. Claimed: \<open>find_closest_index\<close> raises a \<open>ValueError\<close> if and only if the data
  contain a not-a-number value. An empty array contains none, and \<open>argmin\<close> raises a
  \<open>ValueError\<close> on it.
\<close>

theorem find_closest_index_counterexample:
  "find_closest_index [] (Fin 4) = Inl (ValueError ''attempt to get argmin of an empty sequence'')
   \<and> NaN \<notin> set ([] :: float64 list)"
  by (simp add: find_closest_index_def np_argmin_def)

text \<open>
  C3, as the code has it: \<open>find_closest_index(data, point)\<close> raises a \<open>ValueError\<close> if
  and only if the data contain a not-a-number value or are empty; for every non-empty
  NaN-free data it returns an index \<open>i\<close> such that \<open>|data[i] - point|\<close> is minimal over
  all indices (no index has a strictly smaller distance); on \<open>[1.0, 5.0, 10.0]\<close> with
  point \<open>4.0\<close> it returns index 1.
\<close>

theorem find_closest_index_spec:
  "((\<exists>msg. find_closest_index data p = Inl (ValueError msg)) \<longleftrightarrow> (NaN \<in> set data \<or> data = []))
   \<and> (data \<noteq> [] \<and> NaN \<notin> set data \<longrightarrow>
        (\<exists>i. find_closest_index data p = Inr i \<and> i < length data
           \<and> (\<forall>j < length data.
                 \<not> f_lt (f_abs (f_sub (data ! j) p)) (f_abs (f_sub (data ! i) p)))))
   \<and> find_closest_index [Fin 1, Fin 5, Fin 10] (Fin 4) = Inr 1"
proof (intro conjI impI)
  show "(\<exists>msg. find_closest_index data p = Inl (ValueError msg)) \<longleftrightarrow> (NaN \<in> set data \<or> data = [])"
  proof (cases "NaN \<in> set data")
    case True
    then show ?thesis by (simp add: find_closest_index_def list_ex_isnan)
  next
    case False
    show ?thesis
    proof (cases "data = []")
      case True
      then show ?thesis by (simp add: find_closest_index_def np_argmin_def)
    next
      case ne: False
      from find_closest_index_result [OF ne False, of p] show ?thesis
        using False ne by auto
    qed
  qed
next
  assume "data \<noteq> [] \<and> NaN \<notin> set data"
  then show "\<exists>i. find_closest_index data p = Inr i \<and> i < length data
           \<and> (\<forall>j < length data.
                 \<not> f_lt (f_abs (f_sub (data ! j) p)) (f_abs (f_sub (data ! i) p)))"
    using find_closest_index_result [of data p] by blast
next
  show "find_closest_index [Fin 1, Fin 5, Fin 10] (Fin 4) = Inr 1"
    by (simp add: find_closest_index_def np_argmin_def isnan_def)
qed

theorem find_closest_index_spec_witness:
  "(\<exists>i. find_closest_index [Fin 1, Fin 5, Fin 10] (Fin 4) = Inr i \<and> i < 3)
   \<and> (\<exists>msg. find_closest_index [Fin 1, NaN, Fin 5] (Fin 4) = Inl (ValueError msg))"
proof -
  have a: "\<exists>i. find_closest_index [Fin 1, Fin 5, Fin 10] (Fin 4) = Inr i \<and> i < 3"
    using find_closest_index_spec [of "[Fin 1, Fin 5, Fin 10]" "Fin 4"] by auto
  have b: "\<exists>msg. find_closest_index [Fin 1, NaN, Fin 5] (Fin 4) = Inl (ValueError msg)"
    using find_closest_index_spec [of "[Fin 1, NaN, Fin 5]" "Fin 4"] by simp
  show ?thesis using a b by simp
qed

text \<open>
  C10. For every non-empty NaN-free data and every point, \<open>find_closest_index\<close> returns
  an index of minimal absolute difference to the point, and among the indices with that
  same difference the smallest one (the first occurrence).
\<close>

theorem find_closest_index_first_tie:
  assumes "data \<noteq> []" and "NaN \<notin> set data"
  shows "\<exists>i. find_closest_index data p = Inr i \<and> i < length data
           \<and> (\<forall>j < length data.
                 \<not> f_lt (f_abs (f_sub (data ! j) p)) (f_abs (f_sub (data ! i) p)))
           \<and> (\<forall>j < length data.
                 f_abs (f_sub (data ! j) p) = f_abs (f_sub (data ! i) p) \<longrightarrow> i \<le> j)"
proof -
  from find_closest_index_result [OF assms, of p] obtain i where
    i: "find_closest_index data p = Inr i" "i < length data"
       "\<forall>j < length data. \<not> f_lt (f_abs (f_sub (data ! j) p)) (f_abs (f_sub (data ! i) p))"
       "\<forall>j < i. f_abs (f_sub (data ! j) p) \<noteq> f_abs (f_sub (data ! i) p)"
    by blast
  have "\<forall>j < length data. f_abs (f_sub (data ! j) p) = f_abs (f_sub (data ! i) p) \<longrightarrow> i \<le> j"
    using i(4) by (meson not_le)
  then show ?thesis using i(1,2,3) by blast
qed

theorem find_closest_index_first_tie_witness:
  "find_closest_index [Fin 7, Fin 3, Fin 5, Fin 3] (Fin 4) = Inr 1"
proof -
  let ?data = "[Fin 7, Fin 3, Fin 5, Fin 3]"
  have ne: "?data \<noteq> []" and nf: "NaN \<notin> set ?data"
    by simp_all
  from find_closest_index_first_tie [OF ne nf, of "Fin 4"] obtain i where
    res: "find_closest_index ?data (Fin 4) = Inr i" and lt: "i < length ?data"
    and least: "\<forall>j < length ?data.
        \<not> f_lt (f_abs (f_sub (?data ! j) (Fin 4))) (f_abs (f_sub (?data ! i) (Fin 4)))"
    and first: "\<forall>j < length ?data.
        f_abs (f_sub (?data ! j) (Fin 4)) = f_abs (f_sub (?data ! i) (Fin 4)) \<longrightarrow> i \<le> j"
    by blast
  have cases: "i = 0 \<or> i = 1 \<or> i = 2 \<or> i = 3"
    using lt by auto
  have "i \<noteq> 0"
  proof
    assume "i = 0"
    then show False using least [rule_format, of 1] by simp
  qed
  moreover have "i \<le> 1"
    using first [rule_format, of 1] cases by auto
  ultimately have "i = 1" by simp
  then show ?thesis using res by simp
qed

section \<open>Properties of the closest-smaller-index search\<close>

lemma dist_smaller_not_nan: "d_lt x p \<Longrightarrow> d_abs (d_sub x p) \<noteq> DNaN"
proof (cases x; cases p)
  fix a b assume "x = Dbl a" and "p = Dbl b"
  then show ?thesis using rnd_not_nan [of "a - b"] by (cases "rnd (a - b)") simp_all
qed simp_all

lemma d_abs_not_ninf: "d_abs c \<noteq> NInf"
  by (cases c) simp_all

lemma not_d_lt_d_le: "a \<noteq> DNaN \<Longrightarrow> b \<noteq> DNaN \<Longrightarrow> \<not> d_lt a b \<Longrightarrow> d_le b a"
  by (cases a; cases b) simp_all

lemma d_lt_d_le_trans: "d_lt a b \<Longrightarrow> d_le b c \<Longrightarrow> d_le a c"
  by (cases a; cases b; cases c) simp_all

lemma d_le_refl: "a \<noteq> DNaN \<Longrightarrow> d_le a a"
  by (cases a) simp_all

lemma d_lt_finite: "d_lt (d_abs c) b \<Longrightarrow> d_lt (d_abs c) PInf"
  by (cases c; cases b) simp_all

lemma d_le_pinf: "a \<noteq> DNaN \<Longrightarrow> d_le a PInf"
  by (cases a) simp_all

lemma infinite_dist: "a \<noteq> DNaN \<Longrightarrow> a \<noteq> NInf \<Longrightarrow> \<not> d_lt a PInf \<Longrightarrow> a = PInf"
  by (cases a) simp_all

lemma closest_smaller_loop_inv:
  assumes "(md = PInf \<and> (\<forall>x \<in> set pre. \<not> (d_lt x p \<and> d_lt (d_abs (d_sub x p)) PInf)))
         \<or> (idx < length pre \<and> md = d_abs (d_sub (pre ! idx) p) \<and> d_lt md PInf
             \<and> d_lt (pre ! idx) p
             \<and> (\<forall>j < length pre. d_lt (pre ! j) p \<longrightarrow>
                   d_le (d_abs (d_sub (pre ! idx) p)) (d_abs (d_sub (pre ! j) p))))"
    and "r = closest_smaller_loop p xs (length pre) md idx"
  shows "((\<exists>x \<in> set (pre @ xs). d_lt x p \<and> d_lt (d_abs (d_sub x p)) PInf) \<longrightarrow>
            r < length (pre @ xs) \<and> d_lt ((pre @ xs) ! r) p
            \<and> d_lt (d_abs (d_sub ((pre @ xs) ! r) p)) PInf
            \<and> (\<forall>j < length (pre @ xs). d_lt ((pre @ xs) ! j) p \<longrightarrow>
                  d_le (d_abs (d_sub ((pre @ xs) ! r) p)) (d_abs (d_sub ((pre @ xs) ! j) p))))
       \<and> (\<not> (\<exists>x \<in> set (pre @ xs). d_lt x p \<and> d_lt (d_abs (d_sub x p)) PInf) \<longrightarrow> r = idx)"
  using assms
proof (induction xs arbitrary: pre md idx)
  case Nil
  then show ?case by (auto simp: in_set_conv_nth)
next
  case (Cons x xs)
  let ?d = "\<lambda>y. d_abs (d_sub y p)"
  let ?pre = "pre @ [x]"
  let ?upd = "d_lt (?d x) md \<and> d_lt x p"
  have app: "?pre @ xs = pre @ x # xs" by simp
  show ?case
  proof (cases ?upd)
    case True
    then have lt: "d_lt x p" and below: "d_lt (?d x) md" by simp_all
    have fin: "d_lt (?d x) PInf" using below by (rule d_lt_finite)
    have nn: "?d x \<noteq> DNaN" using lt by (rule dist_smaller_not_nan)
    have r: "r = closest_smaller_loop p xs (length ?pre) (?d x) (length pre)"
      using Cons.prems(2) True by simp
    have older: "\<forall>j < length pre. d_lt (pre ! j) p \<longrightarrow> d_le (?d x) (?d (pre ! j))"
    proof (intro allI impI)
      fix j assume j: "j < length pre" and sm: "d_lt (pre ! j) p"
      from Cons.prems(1) show "d_le (?d x) (?d (pre ! j))"
      proof
        assume none: "md = PInf \<and> (\<forall>x \<in> set pre. \<not> (d_lt x p \<and> d_lt (?d x) PInf))"
        then have "\<not> d_lt (?d (pre ! j)) PInf" using j sm by auto
        moreover have "?d (pre ! j) \<noteq> DNaN" using sm by (rule dist_smaller_not_nan)
        ultimately have "?d (pre ! j) = PInf"
          using d_abs_not_ninf by (intro infinite_dist) auto
        then show ?thesis using nn by (simp add: d_le_pinf)
      next
        assume inv: "idx < length pre \<and> md = ?d (pre ! idx) \<and> d_lt md PInf \<and> d_lt (pre ! idx) p
             \<and> (\<forall>j < length pre. d_lt (pre ! j) p \<longrightarrow> d_le (?d (pre ! idx)) (?d (pre ! j)))"
        then have "d_lt (?d x) (?d (pre ! idx))" using below by simp
        moreover have "d_le (?d (pre ! idx)) (?d (pre ! j))" using inv j sm by blast
        ultimately show ?thesis by (rule d_lt_d_le_trans)
      qed
    qed
    have all: "\<forall>j < length ?pre. d_lt (?pre ! j) p \<longrightarrow> d_le (?d (?pre ! length pre)) (?d (?pre ! j))"
      using older d_le_refl [OF nn] by (auto simp: nth_append less_Suc_eq)
    have inv': "(?d x = PInf \<and> (\<forall>y \<in> set ?pre. \<not> (d_lt y p \<and> d_lt (?d y) PInf)))
         \<or> (length pre < length ?pre \<and> ?d x = ?d (?pre ! length pre) \<and> d_lt (?d x) PInf
             \<and> d_lt (?pre ! length pre) p
             \<and> (\<forall>j < length ?pre. d_lt (?pre ! j) p \<longrightarrow>
                   d_le (?d (?pre ! length pre)) (?d (?pre ! j))))"
      using lt fin all by simp
    have some: "\<exists>y \<in> set (pre @ x # xs). d_lt y p \<and> d_lt (?d y) PInf" using lt fin by auto
    from Cons.IH [OF inv' r] show ?thesis
      unfolding app using some by blast
  next
    case False
    have r: "r = closest_smaller_loop p xs (length ?pre) md idx"
      using Cons.prems(2) False by simp
    have inv': "(md = PInf \<and> (\<forall>y \<in> set ?pre. \<not> (d_lt y p \<and> d_lt (?d y) PInf)))
         \<or> (idx < length ?pre \<and> md = ?d (?pre ! idx) \<and> d_lt md PInf \<and> d_lt (?pre ! idx) p
             \<and> (\<forall>j < length ?pre. d_lt (?pre ! j) p \<longrightarrow>
                   d_le (?d (?pre ! idx)) (?d (?pre ! j))))"
      using Cons.prems(1)
    proof
      assume none: "md = PInf \<and> (\<forall>x \<in> set pre. \<not> (d_lt x p \<and> d_lt (?d x) PInf))"
      then have "\<not> (d_lt x p \<and> d_lt (?d x) PInf)" using False by auto
      then show ?thesis using none by auto
    next
      assume inv: "idx < length pre \<and> md = ?d (pre ! idx) \<and> d_lt md PInf \<and> d_lt (pre ! idx) p
             \<and> (\<forall>j < length pre. d_lt (pre ! j) p \<longrightarrow> d_le (?d (pre ! idx)) (?d (pre ! j)))"
      have new: "d_lt x p \<longrightarrow> d_le (?d (pre ! idx)) (?d x)"
      proof
        assume lt: "d_lt x p"
        then have "\<not> d_lt (?d x) (?d (pre ! idx))" using False inv by simp
        moreover have "?d x \<noteq> DNaN" using lt by (rule dist_smaller_not_nan)
        moreover have "?d (pre ! idx) \<noteq> DNaN" using inv dist_smaller_not_nan by blast
        ultimately show "d_le (?d (pre ! idx)) (?d x)" by (intro not_d_lt_d_le)
      qed
      have i1: "idx < length ?pre" using inv by simp
      have i2: "md = ?d (?pre ! idx)" using inv by (simp add: nth_append)
      have i3: "d_lt md PInf" using inv by blast
      have i4: "d_lt (?pre ! idx) p" using inv by (simp add: nth_append)
      have i5: "\<forall>j < length ?pre. d_lt (?pre ! j) p \<longrightarrow> d_le (?d (?pre ! idx)) (?d (?pre ! j))"
        using inv new by (auto simp: nth_append less_Suc_eq)
      show ?thesis using i1 i2 i3 i4 i5 by blast
    qed
    from Cons.IH [OF inv' r] show ?thesis
      unfolding app by blast
  qed
qed

lemma find_closest_smaller_index_finite:
  "((\<exists>x \<in> set data. d_lt x p \<and> d_lt (d_abs (d_sub x p)) PInf) \<longrightarrow>
      find_closest_smaller_index data p < length data
      \<and> d_lt (data ! find_closest_smaller_index data p) p
      \<and> (\<forall>j < length data. d_lt (data ! j) p \<longrightarrow>
            d_le (d_abs (d_sub (data ! find_closest_smaller_index data p) p))
                 (d_abs (d_sub (data ! j) p))))
   \<and> (\<not> (\<exists>x \<in> set data. d_lt x p \<and> d_lt (d_abs (d_sub x p)) PInf) \<longrightarrow>
        find_closest_smaller_index data p = 0)"
proof -
  have inv: "(PInf = PInf \<and> (\<forall>x \<in> set []. \<not> (d_lt x p \<and> d_lt (d_abs (d_sub x p)) PInf)))
         \<or> (0 < length [] \<and> PInf = d_abs (d_sub ([] ! 0) p) \<and> d_lt PInf PInf
             \<and> d_lt ([] ! 0) p
             \<and> (\<forall>j < length []. d_lt ([] ! j) p \<longrightarrow>
                   d_le (d_abs (d_sub ([] ! 0) p)) (d_abs (d_sub ([] ! j) p))))"
    by simp
  have r: "find_closest_smaller_index data p = closest_smaller_loop p data (length []) PInf 0"
    by (simp add: find_closest_smaller_index_def)
  from closest_smaller_loop_inv [OF inv r] show ?thesis by simp
qed

lemma overflow_difference: "rnd (- (2 ^ 1023) - 2 ^ 1023) = NInf"
proof -
  have b: "binade (- (2 ^ 1023) - 2 ^ 1023) = 1023"
    by (rule binade_eqI) simp_all
  show ?thesis
    unfolding rnd_binade [OF b] by (simp add: np_round_def Let_def)
qed

text \<open>
  C4. The claim, like the docstring (the index of the element that is the closest but
  lower than the datapoint), asks for the index of a strictly smaller element whenever
  there is one. The code returns 0, the index of an element that is not smaller, when
  the only strictly smaller element is at an infinite computed distance: the element
  \<open>-inf\<close>, or finite values whose difference overflows. Such a distance is not below the
  initial \<open>min_difference = np.inf\<close>, so the index is never updated. (The lemma above
  states what the loop does: it returns a strictly smaller element of minimal computed
  distance whenever one is at a finite computed distance.)
\<close>

theorem find_closest_smaller_index_infinite_distance:
  "find_closest_smaller_index [Dbl 10, NInf] (Dbl 5) = 0
   \<and> find_closest_smaller_index [Dbl (3 * 2 ^ 1022), Dbl (- (2 ^ 1023))] (Dbl (2 ^ 1023)) = 0"
proof -
  have a: "find_closest_smaller_index [Dbl 10, NInf] (Dbl 5) = 0"
    by (simp add: find_closest_smaller_index_def)
  have "d_sub (Dbl (- (2 ^ 1023))) (Dbl (2 ^ 1023)) = NInf"
    by (simp only: d_sub.simps overflow_difference)
  then have b: "find_closest_smaller_index [Dbl (3 * 2 ^ 1022), Dbl (- (2 ^ 1023))] (Dbl (2 ^ 1023)) = 0"
    by (simp add: find_closest_smaller_index_def)
  show ?thesis using a b by simp
qed

section \<open>Properties of the stimulation timestamps\<close>

lemma length_diff_prepend: "length (diff_prepend p bs) = length bs"
  by (induction bs arbitrary: p) simp_all

lemma nth_diff_prepend:
  "i < length bs \<Longrightarrow> diff_prepend p bs ! i = (bs ! i \<noteq> (if i = 0 then p else bs ! (i - 1)))"
proof (induction bs arbitrary: p i)
  case Nil
  then show ?case by simp
next
  case (Cons b bs)
  show ?case
  proof (cases i)
    case 0
    then show ?thesis by simp
  next
    case (Suc k)
    then have "k < length bs" using Cons.prems by simp
    then show ?thesis using Cons.IH [of k b] Suc by (cases k) simp_all
  qed
qed

lemma np_where_diff_prepend:
  "np_where (diff_prepend False bs)
     = map int (filter (\<lambda>i. bs ! i \<noteq> (0 < i \<and> bs ! (i - 1))) [0..<length bs])"
proof -
  have "filter (\<lambda>i. diff_prepend False bs ! i) [0..<length bs]
          = filter (\<lambda>i. bs ! i \<noteq> (0 < i \<and> bs ! (i - 1))) [0..<length bs]"
    by (rule filter_cong) (auto simp: nth_diff_prepend)
  then show ?thesis by (simp add: np_where_def length_diff_prepend)
qed

lemma every_nth_2_cons2: "every_nth 2 (x # y # xs) = x # every_nth 2 xs"
  by simp

lemma every_nth_2_even_positions:
  "every_nth 2 xs = map (\<lambda>k. xs ! (2 * k)) [0..<(length xs + 1) div 2]"
proof (induction xs rule: induct_list012)
  case 1
  then show ?case by simp
next
  case (2 x)
  then show ?case by simp
next
  case (3 x y zs)
  have "[0..<(length (x # y # zs) + 1) div 2] = 0 # map Suc [0..<(length zs + 1) div 2]"
    by (simp add: upt_conv_Cons map_Suc_upt del: upt_Suc)
  then have "map (\<lambda>k. (x # y # zs) ! (2 * k)) [0..<(length (x # y # zs) + 1) div 2]
      = x # map (\<lambda>k. zs ! (2 * k)) [0..<(length zs + 1) div 2]"
    by (simp add: comp_def)
  then show ?case using 3 by simp
qed

lemma py_slice_prefix: "0 < n \<Longrightarrow> py_slice xs None (Some n) = take (nat n) xs"
  by (simp add: py_slice_def norm_index_def Let_def min_def)

lemma sorted_every_nth: "sorted_wrt (<) xs \<Longrightarrow> sorted_wrt (<) (every_nth 2 xs)"
proof (induction xs rule: induct_list012)
  case (3 x y zs)
  have "set (every_nth 2 zs) \<subseteq> set zs"
    by (simp add: every_nth_2_even_positions) (auto simp: subset_iff)
  then show ?case using 3 by auto
qed simp_all

text \<open>
  C5. The docstring says that a given \<open>expected_pulses\<close> trims the result to that number
  of pulses, and the claim that every given count \<open>N\<close> keeps the first \<open>N\<close> indices. The
  code tests \<open>if expected_pulses\<close>, which is false for 0: on a channel with one rising
  edge and an expected count of 0 it returns that edge instead of nothing.
\<close>

theorem get_stim_timestamps_zero_expected:
  "get_stim_timestamps [Fin 1] (Some 0) = [0]
   \<and> take 0 (get_stim_timestamps [Fin 1] None) = []"
  by (simp add: get_stim_timestamps_def np_where_def f_gt_def)

text \<open>
  What the code does on every input: it returns exactly the even-positioned (0th, 2nd,
  4th, ...) indices of the sign changes of the above-zero mask (the positions where the
  mask differs from the position before, the mask being false before the first sample),
  in increasing order; with a positive expected count \<open>N\<close> the result is cut to its first
  \<open>N\<close> indices, and a result of at most \<open>N\<close> indices is returned unchanged; with an
  expected count of 0 nothing is cut.
\<close>

theorem get_stim_timestamps_spec:
  assumes "edges = map int (filter (\<lambda>i. f_gt (sync_ch ! i) (Fin 0)
                      \<noteq> (0 < i \<and> f_gt (sync_ch ! (i - 1)) (Fin 0))) [0..<length sync_ch])"
  shows "get_stim_timestamps sync_ch None
           = map (\<lambda>k. edges ! (2 * k)) [0..<(length edges + 1) div 2]
       \<and> sorted_wrt (<) (get_stim_timestamps sync_ch None)
       \<and> (0 < n \<longrightarrow> get_stim_timestamps sync_ch (Some n)
                        = take (nat n) (get_stim_timestamps sync_ch None))
       \<and> (0 < n \<and> int (length (get_stim_timestamps sync_ch None)) \<le> n
            \<longrightarrow> get_stim_timestamps sync_ch (Some n) = get_stim_timestamps sync_ch None)
       \<and> get_stim_timestamps sync_ch (Some 0) = get_stim_timestamps sync_ch None"
proof -
  let ?mask = "map (\<lambda>x. f_gt x (Fin 0)) sync_ch"
  have "np_where (diff_prepend False ?mask)
          = map int (filter (\<lambda>i. ?mask ! i \<noteq> (0 < i \<and> ?mask ! (i - 1))) [0..<length ?mask])"
    by (rule np_where_diff_prepend)
  also have "filter (\<lambda>i. ?mask ! i \<noteq> (0 < i \<and> ?mask ! (i - 1))) [0..<length ?mask]
          = filter (\<lambda>i. f_gt (sync_ch ! i) (Fin 0)
                      \<noteq> (0 < i \<and> f_gt (sync_ch ! (i - 1)) (Fin 0))) [0..<length sync_ch]"
    by (rule filter_cong) auto
  finally have edges: "np_where (diff_prepend False ?mask) = edges"
    using assms by simp
  have none: "get_stim_timestamps sync_ch None = every_nth 2 edges"
    using edges by (simp add: get_stim_timestamps_def)
  have a: "get_stim_timestamps sync_ch None
           = map (\<lambda>k. edges ! (2 * k)) [0..<(length edges + 1) div 2]"
    unfolding none by (rule every_nth_2_even_positions)
  have "sorted_wrt (<) (filter (\<lambda>i. f_gt (sync_ch ! i) (Fin 0)
                      \<noteq> (0 < i \<and> f_gt (sync_ch ! (i - 1)) (Fin 0))) [0..<length sync_ch])"
    by (rule sorted_wrt_filter) simp
  then have "sorted_wrt (<) edges"
    unfolding assms by (simp add: sorted_wrt_map)
  then have b: "sorted_wrt (<) (get_stim_timestamps sync_ch None)"
    unfolding none by (rule sorted_every_nth)
  have c: "0 < n \<longrightarrow> get_stim_timestamps sync_ch (Some n)
                        = take (nat n) (get_stim_timestamps sync_ch None)"
    using edges by (simp add: get_stim_timestamps_def py_slice_prefix)
  have d: "0 < n \<and> int (length (get_stim_timestamps sync_ch None)) \<le> n
            \<longrightarrow> get_stim_timestamps sync_ch (Some n) = get_stim_timestamps sync_ch None"
    using c by auto
  have e: "get_stim_timestamps sync_ch (Some 0) = get_stim_timestamps sync_ch None"
    by (simp add: get_stim_timestamps_def)
  show ?thesis using a b c d e by blast
qed


theorem get_stim_timestamps_spec_witness:
  "get_stim_timestamps [Fin 0, Fin 1, Fin 1, Fin 0, Fin 0, Fin 2, Fin 0, Fin 3] None = [1, 5, 7]
   \<and> get_stim_timestamps [Fin 0, Fin 1, Fin 1, Fin 0, Fin 0, Fin 2, Fin 0, Fin 3] (Some 2) = [1, 5]
   \<and> get_stim_timestamps [Fin 0, Fin 1, Fin 1, Fin 0, Fin 0, Fin 2, Fin 0, Fin 3] (Some 9) = [1, 5, 7]"
proof -
  let ?sync = "[Fin 0, Fin 1, Fin 1, Fin 0, Fin 0, Fin 2, Fin 0, Fin 3]"
  have len: "[0..<length ?sync] = [0, 1, 2, 3, 4, 5, 6, 7]"
    by (simp add: upt_rec)
  have edges: "[1, 3, 5, 6, 7] = map int (filter (\<lambda>i. f_gt (?sync ! i) (Fin 0)
                      \<noteq> (0 < i \<and> f_gt (?sync ! (i - 1)) (Fin 0))) [0..<length ?sync])"
    unfolding len by (simp add: f_gt_def)
  have upt3: "[0..<(length [1, 3, 5, 6, 7 :: int] + 1) div 2] = [0, 1, 2]"
    by (simp add: upt_rec)
  have none: "get_stim_timestamps ?sync None = [1, 5, 7]"
    using get_stim_timestamps_spec [OF edges, of 2] unfolding upt3 by simp
  have two: "get_stim_timestamps ?sync (Some 2) = [1, 5]"
    using get_stim_timestamps_spec [OF edges, of 2] none by simp
  have nine: "get_stim_timestamps ?sync (Some 9) = [1, 5, 7]"
    using get_stim_timestamps_spec [OF edges, of 9] none by simp
  show ?thesis using none two nine by simp
qed

section \<open>Properties of the averaging by amplitude\<close>

lemma py_slice_in_range:
  "0 \<le> a \<Longrightarrow> a \<le> b \<Longrightarrow> b \<le> int (length xs) \<Longrightarrow>
   py_slice xs (Some a) (Some b) = take (nat (b - a)) (drop (nat a) xs)"
  by (simp add: py_slice_def norm_index_def Let_def min_def nat_diff_distrib)

lemma amplitudes_loop_map:
  "amplitudes_loop pr pn is acc
     = acc @ map (\<lambda>i. average_block pr (int i * pn) ((int i + 1) * pn)) is"
  by (induction "is" arbitrary: acc) (simp_all add: Let_def)

lemma block_in_range:
  assumes "i < k"
  shows "(i + 1) * (n div k) \<le> (n :: nat)"
proof -
  have "(i + 1) * (n div k) \<le> k * (n div k)"
    using assms by (intro mult_le_mono1) simp
  also have "\<dots> \<le> n" by simp
  finally show ?thesis .
qed

lemma average_block_inferred:
  assumes "i < k"
  shows "average_block pr (int i * (int (length (rows pr)) div int k))
           ((int i + 1) * (int (length (rows pr)) div int k))
         = mean_axis0 (ncols pr)
             (take (length (rows pr) div k) (drop (i * (length (rows pr) div k)) (rows pr)))"
proof -
  let ?n = "length (rows pr)"
  let ?p = "?n div k"
  have p: "int ?n div int k = int ?p" by (simp add: zdiv_int)
  have a: "int i * int ?p = int (i * ?p)" and b: "(int i + 1) * int ?p = int ((i + 1) * ?p)"
    by (simp_all add: algebra_simps)
  have le: "(i + 1) * ?p \<le> ?n" using assms by (rule block_in_range)
  have r1: "0 \<le> int (i * ?p)" by simp
  have r2: "int (i * ?p) \<le> int ((i + 1) * ?p)" by simp
  have r3: "int ((i + 1) * ?p) \<le> int ?n" using le by (simp only: of_nat_le_iff)
  have n1: "nat (int ((i + 1) * ?p) - int (i * ?p)) = ?p"
    by (simp add: algebra_simps)
  have n2: "nat (int (i * ?p)) = i * ?p" by (rule nat_int)
  have sl: "py_slice (rows pr) (Some (int (i * ?p))) (Some (int ((i + 1) * ?p)))
          = take ?p (drop (i * ?p) (rows pr))"
    using py_slice_in_range [OF r1 r2 r3] unfolding n1 n2 .
  show ?thesis
    by (simp only: p a b average_block_def Let_def sl)
qed

lemma length_block:
  assumes "i < k" and "length xs = n"
  shows "length (take (n div k) (drop (i * (n div k)) xs)) = n div k"
proof -
  have "(i + 1) * (n div k) \<le> n" using assms(1) by (rule block_in_range)
  then show ?thesis using assms(2) by simp
qed

text \<open>
  C6. For every (rectangular) chunk matrix: if exactly one amplitude was tested,
  \<open>get_average_amplitudes\<close> returns a list of one row, the column-wise mean over all
  rows of the chunk matrix, whatever \<open>pulses_number\<close> is. If more than one amplitude was
  tested and \<open>pulses_number\<close> is not given, the number of pulses is
  \<open>p = floor(total_rows / number_of_amplitudes)\<close> and the result lists, for each
  amplitude \<open>i\<close> in order, the column-wise mean of the contiguous block of rows
  \<open>[i * p, (i + 1) * p)\<close>, a block of exactly \<open>p\<close> rows.
\<close>

theorem get_average_amplitudes_spec:
  assumes "wf_ndarray2 parsed_raw"
  shows "(length tested_amplitudes = 1 \<longrightarrow>
      get_average_amplitudes parsed_raw tested_amplitudes pulses_number
        = Inr [mean_axis0 (ncols parsed_raw) (rows parsed_raw)])
   \<and> (1 < length tested_amplitudes \<longrightarrow>
      get_average_amplitudes parsed_raw tested_amplitudes None
        = Inr (map (\<lambda>i. mean_axis0 (ncols parsed_raw)
                    (take (length (rows parsed_raw) div length tested_amplitudes)
                      (drop (i * (length (rows parsed_raw) div length tested_amplitudes))
                        (rows parsed_raw))))
                 [0..<length tested_amplitudes])
      \<and> (\<forall>i < length tested_amplitudes.
            length (take (length (rows parsed_raw) div length tested_amplitudes)
                      (drop (i * (length (rows parsed_raw) div length tested_amplitudes))
                        (rows parsed_raw)))
              = length (rows parsed_raw) div length tested_amplitudes))"
proof (intro conjI impI)
  assume "length tested_amplitudes = 1"
  moreover have "average_block parsed_raw 0 (int (length (rows parsed_raw)))
      = mean_axis0 (ncols parsed_raw) (rows parsed_raw)"
    by (simp add: average_block_def py_slice_def norm_index_def)
  ultimately show "get_average_amplitudes parsed_raw tested_amplitudes pulses_number
        = Inr [mean_axis0 (ncols parsed_raw) (rows parsed_raw)]"
    by (simp add: get_average_amplitudes_def)
next
  let ?k = "length tested_amplitudes"
  let ?n = "length (rows parsed_raw)"
  assume k: "1 < ?k"
  have eq: "map (\<lambda>i. average_block parsed_raw (int i * (int ?n div int ?k))
                  ((int i + 1) * (int ?n div int ?k))) [0..<?k]
      = map (\<lambda>i. mean_axis0 (ncols parsed_raw)
                    (take (?n div ?k) (drop (i * (?n div ?k)) (rows parsed_raw)))) [0..<?k]"
    by (rule map_cong) (simp_all add: average_block_inferred)
  have "get_average_amplitudes parsed_raw tested_amplitudes None
        = Inr (map (\<lambda>i. average_block parsed_raw (int i * (int ?n div int ?k))
                  ((int i + 1) * (int ?n div int ?k))) [0..<?k])"
    using k by (auto simp: get_average_amplitudes_def amplitudes_loop_map Let_def)
  then show "get_average_amplitudes parsed_raw tested_amplitudes None
        = Inr (map (\<lambda>i. mean_axis0 (ncols parsed_raw)
                    (take (?n div ?k) (drop (i * (?n div ?k)) (rows parsed_raw)))) [0..<?k])"
    by (simp only: eq)
next
  let ?k = "length tested_amplitudes"
  let ?n = "length (rows parsed_raw)"
  show "\<forall>i < ?k. length (take (?n div ?k) (drop (i * (?n div ?k)) (rows parsed_raw))) = ?n div ?k"
  proof (intro allI impI)
    fix i assume "i < ?k"
    then show "length (take (?n div ?k) (drop (i * (?n div ?k)) (rows parsed_raw))) = ?n div ?k"
      by (rule length_block) simp
  qed
qed


theorem get_average_amplitudes_spec_witness:
  "get_average_amplitudes
     \<lparr>ncols = 2, rows = [[Fin 1, Fin 2], [Fin 3, Fin 4], [Fin 5, Fin 6], [Fin 7, Fin 8]]\<rparr>
     [''low''] (Some 3) = Inr [[Fin 4, Fin 5]]
   \<and> get_average_amplitudes
     \<lparr>ncols = 2, rows = [[Fin 1, Fin 2], [Fin 3, Fin 4], [Fin 5, Fin 6], [Fin 7, Fin 8]]\<rparr>
     [''low'', ''high''] None = Inr [[Fin 2, Fin 3], [Fin 6, Fin 7]]"
proof -
  let ?m = "\<lparr>ncols = 2, rows = [[Fin 1, Fin 2], [Fin 3, Fin 4], [Fin 5, Fin 6], [Fin 7, Fin 8]]\<rparr>"
  have u2: "[0..<2] = [0, 1]" by (simp add: upt_rec)
  have all: "mean_axis0 (ncols ?m) (rows ?m) = [Fin 4, Fin 5]"
    by (simp add: mean_axis0_def np_mean_def np_sum_def u2)
  have len: "length (rows ?m) div length [''low'', ''high''] = 2"
  proof -
    have h1: "length (rows ?m) = 4" and h2: "length [''low'', ''high''] = 2" by simp_all
    show ?thesis unfolding h1 h2 by simp
  qed
  have blocks: "map (\<lambda>i. mean_axis0 (ncols ?m) (take 2 (drop (i * 2) (rows ?m)))) [0..<2]
                  = [[Fin 2, Fin 3], [Fin 6, Fin 7]]"
    unfolding u2 by (simp add: mean_axis0_def np_mean_def np_sum_def u2)
  have l2: "length [''low'', ''high''] = 2" by simp
  have wf: "wf_ndarray2 ?m" by (simp add: wf_ndarray2_def)
  have one: "get_average_amplitudes ?m [''low''] (Some 3) = Inr [[Fin 4, Fin 5]]"
    using get_average_amplitudes_spec [OF wf, of "[''low'']" "Some 3"] all by simp
  have "get_average_amplitudes ?m [''low'', ''high''] None
          = Inr (map (\<lambda>i. mean_axis0 (ncols ?m) (take 2 (drop (i * 2) (rows ?m)))) [0..<2])"
    using get_average_amplitudes_spec [OF wf, of "[''low'', ''high'']" None]
    unfolding len unfolding l2 by simp
  then have two: "get_average_amplitudes ?m [''low'', ''high''] None = Inr [[Fin 2, Fin 3], [Fin 6, Fin 7]]"
    unfolding blocks .
  show ?thesis using one two by simp
qed

section \<open>Properties of the end-time rounding and the stimulation blocks\<close>














section \<open>Properties of the marker validation\<close>

lemma sublist_prepend: "sublist m ys \<Longrightarrow> sublist m (ps @ ys)"
  unfolding sublist_def by (metis append.assoc)

lemma sublist_join: "m \<in> set names \<Longrightarrow> sublist m (join sep names)"
proof (induction sep names rule: join.induct)
  case (1 sep)
  then show ?case by simp
next
  case (2 sep x)
  then show ?case by simp
next
  case (3 sep x y ys)
  show ?case
  proof (cases "m = x")
    case True
    then show ?thesis by (simp add: sublist_append_rightI)
  next
    case False
    then have "sublist m (join sep (y # ys))" using 3 by simp
    then have "sublist m ((x @ sep) @ join sep (y # ys))"
      by (rule sublist_prepend)
    then show ?thesis by simp
  qed
qed

lemma marker_error_lists_names:
  "m \<in> set names \<Longrightarrow> \<exists>msg. marker_error side marker names = ValueError msg \<and> sublist m msg"
proof -
  assume "m \<in> set names"
  then have "sublist m (join '', '' names)" by (rule sublist_join)
  then have "sublist m ((''The '' @ side @ '' reference marker '' @ marker @ '' is not among the markers.''
       @ [CHR 0x0A] @ '' Please select one among the following: '' @ [CHR 0x0A]) @ join '', '' names)"
    by (rule sublist_prepend)
  then show ?thesis by (simp add: marker_error_def)
qed

lemma set_unique: "set (unique xs) = set xs"
  by (simp add: unique_def)


lemma flat_select_present:
  "marker \<in> set (map fst (flat_markers_df fself)) \<Longrightarrow> \<exists>traj. flat_select fself marker = Inr traj"
proof -
  assume "marker \<in> set (map fst (flat_markers_df fself))"
  then have "map_of (flat_markers_df fself) marker \<noteq> None"
    by (simp add: map_of_eq_None_iff)
  then show ?thesis by (auto simp: flat_select_def)
qed

text \<open>
  C8. For every loaded marker table, \<open>compute_gait_cycles_bounds\<close> raises a
  \<open>ValueError\<close> whose message lists the available marker names whenever the requested
  left marker, or else the requested right marker, is not among the table's markers (the
  left marker is checked first). When both are present no such error is raised: the
  method goes on to the event detection of both sides, any error then comes from
  selecting a trajectory or from the detection itself, and when both detections return,
  their events are stored for the left and the right side. The same holds for the older
  run class with its flat table, where selecting the trajectory of a present marker
  cannot fail.
\<close>

theorem gait_cycles_bounds_validation:
  assumes "names = unique (bodyparts_level self)"
    and "fnames = map fst (flat_markers_df fself)"
  shows "(left_marker \<notin> set names \<longrightarrow>
            compute_gait_cycles_bounds detect self left_marker right_marker axis
              = Inl (marker_error ''left'' left_marker names))
       \<and> (left_marker \<in> set names \<and> right_marker \<notin> set names \<longrightarrow>
            compute_gait_cycles_bounds detect self left_marker right_marker axis
              = Inl (marker_error ''right'' right_marker names))
       \<and> (\<forall>m \<in> set names. \<forall>side marker.
            \<exists>msg. marker_error side marker names = ValueError msg \<and> sublist m msg)
       \<and> (left_marker \<in> set names \<and> right_marker \<in> set names \<longrightarrow>
            (\<forall>e. compute_gait_cycles_bounds detect self left_marker right_marker axis = Inl e \<longrightarrow>
                select_trajectory self left_marker axis = Inl e
              \<or> (\<exists>traj. select_trajectory self left_marker axis = Inr traj
                         \<and> detect traj (run_fs self) = Inl e)
              \<or> select_trajectory self right_marker axis = Inl e
              \<or> (\<exists>traj. select_trajectory self right_marker axis = Inr traj
                         \<and> detect traj (run_fs self) = Inl e))
          \<and> (\<forall>ltraj rtraj levents revents.
                select_trajectory self left_marker axis = Inr ltraj
                \<and> detect ltraj (run_fs self) = Inr levents
                \<and> select_trajectory self right_marker axis = Inr rtraj
                \<and> detect rtraj (run_fs self) = Inr revents \<longrightarrow>
                compute_gait_cycles_bounds detect self left_marker right_marker axis
                  = Inr (self\<lparr>left_mtp := Some levents, right_mtp := Some revents\<rparr>)))
       \<and> (left_marker \<notin> set fnames \<longrightarrow>
            flat_compute_gait_cycles_bounds detect fself left_marker right_marker recording_fs
              = Inl (marker_error ''left'' left_marker fnames))
       \<and> (left_marker \<in> set fnames \<and> right_marker \<notin> set fnames \<longrightarrow>
            flat_compute_gait_cycles_bounds detect fself left_marker right_marker recording_fs
              = Inl (marker_error ''right'' right_marker fnames))
       \<and> (left_marker \<in> set fnames \<and> right_marker \<in> set fnames \<longrightarrow>
            (\<exists>ltraj rtraj.
                flat_select fself left_marker = Inr ltraj \<and> flat_select fself right_marker = Inr rtraj
              \<and> (\<forall>e. flat_compute_gait_cycles_bounds detect fself left_marker right_marker
                         recording_fs = Inl e \<longrightarrow>
                       detect ltraj recording_fs = Inl e \<or> detect rtraj recording_fs = Inl e)
              \<and> (\<forall>levents revents.
                    detect ltraj recording_fs = Inr levents
                    \<and> detect rtraj recording_fs = Inr revents \<longrightarrow>
                    flat_compute_gait_cycles_bounds detect fself left_marker right_marker
                      recording_fs
                      = Inr (fself\<lparr>flat_left_mtp := Some levents,
                                     flat_right_mtp := Some revents\<rparr>))))"
proof (intro conjI impI ballI allI)
  assume "left_marker \<notin> set names"
  then show "compute_gait_cycles_bounds detect self left_marker right_marker axis
              = Inl (marker_error ''left'' left_marker names)"
    using assms by (simp add: compute_gait_cycles_bounds_def)
next
  assume "left_marker \<in> set names \<and> right_marker \<notin> set names"
  then show "compute_gait_cycles_bounds detect self left_marker right_marker axis
              = Inl (marker_error ''right'' right_marker names)"
    using assms by (simp add: compute_gait_cycles_bounds_def)
next
  fix m side marker
  assume "m \<in> set names"
  then show "\<exists>msg. marker_error side marker names = ValueError msg \<and> sublist m msg"
    by (rule marker_error_lists_names)
next
  fix e
  assume "left_marker \<in> set names \<and> right_marker \<in> set names"
    and "compute_gait_cycles_bounds detect self left_marker right_marker axis = Inl e"
  then show "select_trajectory self left_marker axis = Inl e
              \<or> (\<exists>traj. select_trajectory self left_marker axis = Inr traj
                         \<and> detect traj (run_fs self) = Inl e)
              \<or> select_trajectory self right_marker axis = Inl e
              \<or> (\<exists>traj. select_trajectory self right_marker axis = Inr traj
                         \<and> detect traj (run_fs self) = Inl e)"
    using assms by (auto simp: compute_gait_cycles_bounds_def split: sum.splits)
next
  fix ltraj rtraj levents revents
  assume "left_marker \<in> set names \<and> right_marker \<in> set names"
    and "select_trajectory self left_marker axis = Inr ltraj
                \<and> detect ltraj (run_fs self) = Inr levents
                \<and> select_trajectory self right_marker axis = Inr rtraj
                \<and> detect rtraj (run_fs self) = Inr revents"
  then show "compute_gait_cycles_bounds detect self left_marker right_marker axis
                  = Inr (self\<lparr>left_mtp := Some levents, right_mtp := Some revents\<rparr>)"
    using assms by (simp add: compute_gait_cycles_bounds_def)
next
  assume "left_marker \<notin> set fnames"
  then show "flat_compute_gait_cycles_bounds detect fself left_marker right_marker recording_fs
              = Inl (marker_error ''left'' left_marker fnames)"
    using assms by (simp add: flat_compute_gait_cycles_bounds_def)
next
  assume "left_marker \<in> set fnames \<and> right_marker \<notin> set fnames"
  then show "flat_compute_gait_cycles_bounds detect fself left_marker right_marker recording_fs
              = Inl (marker_error ''right'' right_marker fnames)"
    using assms by (simp add: flat_compute_gait_cycles_bounds_def)
next
  assume both: "left_marker \<in> set fnames \<and> right_marker \<in> set fnames"
  then obtain ltraj rtraj where l: "flat_select fself left_marker = Inr ltraj"
    and r: "flat_select fself right_marker = Inr rtraj"
    using assms(2) flat_select_present by blast
  have err: "\<forall>e. flat_compute_gait_cycles_bounds detect fself left_marker right_marker
                         recording_fs = Inl e \<longrightarrow>
                       detect ltraj recording_fs = Inl e \<or> detect rtraj recording_fs = Inl e"
    using both assms(2) l r
    by (auto simp: flat_compute_gait_cycles_bounds_def split: sum.splits)
  have ok: "\<forall>levents revents.
                    detect ltraj recording_fs = Inr levents
                    \<and> detect rtraj recording_fs = Inr revents \<longrightarrow>
                    flat_compute_gait_cycles_bounds detect fself left_marker right_marker
                      recording_fs
                      = Inr (fself\<lparr>flat_left_mtp := Some levents,
                                     flat_right_mtp := Some revents\<rparr>)"
    using both assms(2) l r by (simp add: flat_compute_gait_cycles_bounds_def)
  show "\<exists>ltraj rtraj.
                flat_select fself left_marker = Inr ltraj \<and> flat_select fself right_marker = Inr rtraj
              \<and> (\<forall>e. flat_compute_gait_cycles_bounds detect fself left_marker right_marker
                         recording_fs = Inl e \<longrightarrow>
                       detect ltraj recording_fs = Inl e \<or> detect rtraj recording_fs = Inl e)
              \<and> (\<forall>levents revents.
                    detect ltraj recording_fs = Inr levents
                    \<and> detect rtraj recording_fs = Inr revents \<longrightarrow>
                    flat_compute_gait_cycles_bounds detect fself left_marker right_marker
                      recording_fs
                      = Inr (fself\<lparr>flat_left_mtp := Some levents,
                                     flat_right_mtp := Some revents\<rparr>))"
    using l r err ok by blast
qed


theorem gait_cycles_bounds_validation_witness:
  "compute_gait_cycles_bounds (\<lambda>traj rate. Inr ([0], [1], [0]))
     \<lparr>markers_df = [((''s'', ''lmtp'', ''z''), [Fin 0, Fin 1]), ((''s'', ''rmtp'', ''z''), [Fin 1, Fin 0])],
      scorer = ''s'', run_fs = 100, left_mtp = None, right_mtp = None\<rparr>
     ''toe'' ''rmtp'' ''z''
     = Inl (ValueError (''The left reference marker toe is not among the markers.'' @ [CHR 0x0A]
              @ '' Please select one among the following: '' @ [CHR 0x0A] @ ''lmtp, rmtp''))
   \<and> compute_gait_cycles_bounds (\<lambda>traj rate. Inr ([0], [1], [0]))
     \<lparr>markers_df = [((''s'', ''lmtp'', ''z''), [Fin 0, Fin 1]), ((''s'', ''rmtp'', ''z''), [Fin 1, Fin 0])],
      scorer = ''s'', run_fs = 100, left_mtp = None, right_mtp = None\<rparr>
     ''lmtp'' ''rmtp'' ''z''
     = Inr \<lparr>markers_df = [((''s'', ''lmtp'', ''z''), [Fin 0, Fin 1]), ((''s'', ''rmtp'', ''z''), [Fin 1, Fin 0])],
      scorer = ''s'', run_fs = 100, left_mtp = Some ([0], [1], [0]), right_mtp = Some ([0], [1], [0])\<rparr>
   \<and> flat_compute_gait_cycles_bounds (\<lambda>traj rate. Inr ([0], [1], [0]))
     \<lparr>flat_markers_df = [(''lmtp_y'', [Fin 0, Fin 1]), (''rmtp_y'', [Fin 1, Fin 0])],
      flat_left_mtp = None, flat_right_mtp = None\<rparr>
     ''lmtp_y'' ''toe'' 100
     = Inl (ValueError (''The right reference marker toe is not among the markers.'' @ [CHR 0x0A]
              @ '' Please select one among the following: '' @ [CHR 0x0A] @ ''lmtp_y, rmtp_y''))"
proof -
  let ?det = "\<lambda>(traj :: float64 list) (rate :: real). (Inr ([0], [1], [0]) :: error + events)"
  let ?self = "\<lparr>markers_df = [((''s'', ''lmtp'', ''z''), [Fin 0, Fin 1]), ((''s'', ''rmtp'', ''z''), [Fin 1, Fin 0])],
      scorer = ''s'', run_fs = 100, left_mtp = None, right_mtp = None\<rparr>"
  let ?fself = "\<lparr>flat_markers_df = [(''lmtp_y'', [Fin 0, Fin 1]), (''rmtp_y'', [Fin 1, Fin 0])],
      flat_left_mtp = None, flat_right_mtp = None\<rparr>"
  have names: "[''lmtp'', ''rmtp''] = unique (bodyparts_level ?self)"
    by (simp add: unique_def bodyparts_level_def)
  have fnames: "[''lmtp_y'', ''rmtp_y''] = map fst (flat_markers_df ?fself)"
    by simp
  have sl: "select_trajectory ?self ''lmtp'' ''z'' = Inr [Fin 0, Fin 1]"
    by (simp add: select_trajectory_def)
  have sr: "select_trajectory ?self ''rmtp'' ''z'' = Inr [Fin 1, Fin 0]"
    by (simp add: select_trajectory_def)
  have a: "compute_gait_cycles_bounds ?det ?self ''toe'' ''rmtp'' ''z''
     = Inl (ValueError (''The left reference marker toe is not among the markers.'' @ [CHR 0x0A]
              @ '' Please select one among the following: '' @ [CHR 0x0A] @ ''lmtp, rmtp''))"
    using gait_cycles_bounds_validation [OF names fnames, of "''toe''" ?det "''rmtp''" "''z''"]
    by (simp add: marker_error_def)
  have b: "compute_gait_cycles_bounds ?det ?self ''lmtp'' ''rmtp'' ''z''
     = Inr (?self\<lparr>left_mtp := Some ([0], [1], [0]), right_mtp := Some ([0], [1], [0])\<rparr>)"
    using gait_cycles_bounds_validation [OF names fnames, of "''lmtp''" ?det "''rmtp''" "''z''"]
      sl sr by simp
  have c: "flat_compute_gait_cycles_bounds ?det ?fself ''lmtp_y'' ''toe'' 100
     = Inl (ValueError (''The right reference marker toe is not among the markers.'' @ [CHR 0x0A]
              @ '' Please select one among the following: '' @ [CHR 0x0A] @ ''lmtp_y, rmtp_y''))"
    using gait_cycles_bounds_validation [OF names fnames, of "''lmtp_y''" ?det "''toe''" "''z''" 100]
    by (simp add: marker_error_def)
  show ?thesis using a b c by simp
qed

end
